theory Spec2Isabelle
  imports Complex_Main "HOL-Library.Sublist"
begin

section \<open>Common data: exceptions, retrieved nodes, query results\<close>

text \<open>
  Every \<^verbatim>\<open>raise Exception(msg)\<close> of the sources is a value \<open>Exception msg\<close>; \<open>str(e)\<close> is
  the message. A Python \<^verbatim>\<open>str\<close> is a list of characters and \<^verbatim>\<open>len\<close> counts them; Isabelle's
  \<open>char\<close> covers the code points 0 to 255.
\<close>

datatype exn = Exception string

fun str_of_exn :: "exn \<Rightarrow> string" where
  "str_of_exn (Exception m) = m"

text \<open>
  \<^verbatim>\<open>QueryResult.get_source_text\<close> probes each retrieved node: one with a \<^verbatim>\<open>text\<close> attribute
  gives that attribute, otherwise one with a \<^verbatim>\<open>get_content\<close> method gives its result,
  otherwise \<^verbatim>\<open>str(node)\<close> is taken. The three shapes are the constructors below, each
  carrying the string the probe yields.
\<close>

datatype node = HasText string | HasGetContent string | Plain string

fun node_text :: "node \<Rightarrow> string" where
  "node_text (HasText t) = t"
| "node_text (HasGetContent c) = c"
| "node_text (Plain s) = s"

text \<open>\<^verbatim>\<open>class QueryResult\<close> (utils/performance\_tracker.py).\<close>

record query_result =
  response :: string
  source_nodes :: "node list"
  execution_time :: real
  timestamp :: real

text \<open>\<^verbatim>\<open>sep.join(xs)\<close> of Python.\<close>

fun join_str :: "string \<Rightarrow> string list \<Rightarrow> string" where
  "join_str sep [] = []"
| "join_str sep [x] = x"
| "join_str sep (x # y # ys) = x @ sep @ join_str sep (y # ys)"

text \<open>
  \<^verbatim>\<open>get_source_text\<close>: the early return on an empty node list, the loop appending one text
  per node, and the join of the slice \<^verbatim>\<open>texts[:3]\<close>.
\<close>

definition collect_texts :: "node list \<Rightarrow> string list" where
  "collect_texts nodes = foldl (\<lambda>texts n. texts @ [node_text n]) [] nodes"

definition get_source_text :: "query_result \<Rightarrow> string" where
  "get_source_text qr =
     (if source_nodes qr = [] then ''No sources retrieved''
      else join_str ''\<newline>---\<newline>'' (take 3 (collect_texts (source_nodes qr))))"

section \<open>The comparison step of the application\<close>

text \<open>
  app.py, lines 206 and 207:
  \<^verbatim>\<open>time_diff = abs(vector_result.execution_time - tree_result.execution_time)\<close> and
  \<^verbatim>\<open>faster_engine = "Vector" if vector_result.execution_time < tree_result.execution_time else "Tree"\<close>.
  Durations are read as real numbers.
\<close>

definition time_diff :: "query_result \<Rightarrow> query_result \<Rightarrow> real" where
  "time_diff vector_result tree_result =
     \<bar>execution_time vector_result - execution_time tree_result\<bar>"

definition faster_engine :: "query_result \<Rightarrow> query_result \<Rightarrow> string" where
  "faster_engine vector_result tree_result =
     (if execution_time vector_result < execution_time tree_result then ''Vector'' else ''Tree'')"

section \<open>The two retrieval engines\<close>

text \<open>
  \<^verbatim>\<open>VectorRAGEngine\<close> and \<^verbatim>\<open>TreeRAGEngine\<close> have the same fields and the same control flow;
  they differ in the constants tabulated below. The index object the retrieval library
  returns is opaque (type \<open>'idx\<close>).
\<close>

datatype variant = Vector | Tree

record 'idx engine =
  model_name :: string
  index :: "'idx option"
  query_engine :: "'idx option"
  build_time :: real

fun temp_dir :: "variant \<Rightarrow> string" where
  "temp_dir Vector = ''temp_docs''"
| "temp_dir Tree = ''temp_docs_tree''"

fun build_failed_prefix :: "variant \<Rightarrow> string" where
  "build_failed_prefix Vector = ''Failed to build vector index: ''"
| "build_failed_prefix Tree = ''Failed to build tree index: ''"

fun similarity_top_k :: "variant \<Rightarrow> nat" where
  "similarity_top_k Vector = 3"
| "similarity_top_k Tree = 2"

text \<open>
  Everything outside the repository that the engines call is a field of the platform:
  the wall clock (\<open>clock k\<close> is what the \<open>k\<close>-th call of \<^verbatim>\<open>time.time()\<close> returns), the four
  file-system calls of \<^verbatim>\<open>os\<close> and \<^verbatim>\<open>open\<close> (each returns the exception it raised, if any,
  and the file system it leaves), and the retrieval library. The library calls take the
  number of library calls made before, so that they need not be deterministic:
  \<open>init_backends\<close> is \<^verbatim>\<open>Ollama(...)\<close> with \<^verbatim>\<open>HuggingFaceEmbedding(...)\<close>,
  \<open>load_data\<close> is \<^verbatim>\<open>SimpleDirectoryReader(input_files=...).load_data()\<close>,
  \<open>from_documents\<close> is \<^verbatim>\<open>VectorStoreIndex.from_documents\<close> or \<^verbatim>\<open>TreeIndex.from_documents\<close>,
  \<open>index_query\<close> is \<^verbatim>\<open>index.as_query_engine(similarity_top_k=k).query(text)\<close> and returns
  \<^verbatim>\<open>str(response)\<close> with the response's source nodes.
\<close>

record ('fs, 'idx) platform =
  clock :: "nat \<Rightarrow> real"
  os_makedirs :: "string \<Rightarrow> 'fs \<Rightarrow> exn option \<times> 'fs"
  open_write :: "string \<Rightarrow> string \<Rightarrow> 'fs \<Rightarrow> exn option \<times> 'fs"
  os_remove :: "string \<Rightarrow> 'fs \<Rightarrow> exn option \<times> 'fs"
  os_rmdir :: "string \<Rightarrow> 'fs \<Rightarrow> exn option \<times> 'fs"
  init_backends :: "nat \<Rightarrow> string \<Rightarrow> exn option"
  load_data :: "nat \<Rightarrow> string list \<Rightarrow> 'fs \<Rightarrow> exn + string list"
  from_documents :: "nat \<Rightarrow> variant \<Rightarrow> string list \<Rightarrow> exn + 'idx"
  index_query :: "nat \<Rightarrow> 'idx \<Rightarrow> nat \<Rightarrow> string \<Rightarrow> exn + string \<times> node list"

record 'fs world =
  fs :: 'fs
  time_reads :: nat
  backend_calls :: nat

text \<open>Decimal rendering of a natural number, as \<^verbatim>\<open>f"{i}"\<close> gives it.\<close>

definition digit_char :: "nat \<Rightarrow> char" where
  "digit_char d = ''0123456789'' ! d"

fun str_of_nat :: "nat \<Rightarrow> string" where
  "str_of_nat n = (if n < 10 then [digit_char n] else str_of_nat (n div 10) @ [digit_char (n mod 10)])"

declare str_of_nat.simps [simp del]

definition path_join :: "string \<Rightarrow> string \<Rightarrow> string" where
  "path_join d name = d @ ''/'' @ name"

text \<open>
  \<^verbatim>\<open>__init__\<close>: the fields are set, then \<^verbatim>\<open>initialize_llm_and_embeddings\<close> runs and wraps
  whatever the backends raise; an exception there leaves no engine.
\<close>

definition engine_init ::
  "('fs, 'idx) platform \<Rightarrow> string \<Rightarrow> 'fs world \<Rightarrow> (exn + 'idx engine) \<times> 'fs world" where
  "engine_init P name w =
     (let self = \<lparr>model_name = name, index = None, query_engine = None, build_time = 0\<rparr>;
          w' = w\<lparr>backend_calls := Suc (backend_calls w)\<rparr>
      in case init_backends P (backend_calls w) name of
           Some ex \<Rightarrow> (Inl (Exception (''Failed to initialize LLM/embeddings: '' @ str_of_exn ex)), w')
         | None \<Rightarrow> (Inr self, w'))"

text \<open>The loop of \<^verbatim>\<open>build_index\<close> that writes \<^verbatim>\<open>doc_{i}.txt\<close> for each document.\<close>

fun write_docs ::
  "('fs, 'idx) platform \<Rightarrow> string \<Rightarrow> nat \<Rightarrow> string list \<Rightarrow> string list \<Rightarrow> 'fs
     \<Rightarrow> (exn + string list) \<times> 'fs" where
  "write_docs P dir i [] doc_files f = (Inr doc_files, f)"
| "write_docs P dir i (doc_text # rest) doc_files f =
     (let doc_path = path_join dir (''doc_'' @ str_of_nat i @ ''.txt'')
      in case open_write P doc_path doc_text f of
           (Some ex, f') \<Rightarrow> (Inl ex, f')
         | (None, f') \<Rightarrow> write_docs P dir (Suc i) rest (doc_files @ [doc_path]) f')"

text \<open>The loop that removes the written files again.\<close>

fun remove_docs :: "('fs, 'idx) platform \<Rightarrow> string list \<Rightarrow> 'fs \<Rightarrow> exn option \<times> 'fs" where
  "remove_docs P [] f = (None, f)"
| "remove_docs P (doc_path # rest) f =
     (case os_remove P doc_path f of
        (Some ex, f') \<Rightarrow> (Some ex, f')
      | (None, f') \<Rightarrow> remove_docs P rest f')"

text \<open>
  The body of the \<^verbatim>\<open>try\<close> block of \<^verbatim>\<open>build_index\<close>, statement by statement. The first
  component of the result is the exception that left the block, or the returned build
  time; \<^verbatim>\<open>self.index\<close> and \<^verbatim>\<open>self.build_time\<close> are assigned in the last branch only.
\<close>

definition build_index_try ::
  "variant \<Rightarrow> ('fs, 'idx) platform \<Rightarrow> 'idx engine \<Rightarrow> string list \<Rightarrow> real \<Rightarrow> 'fs world
     \<Rightarrow> (exn + real) \<times> 'idx engine \<times> 'fs world" where
  "build_index_try v P self documents start_time w =
     (case os_makedirs P (temp_dir v) (fs w) of
        (Some ex, f1) \<Rightarrow> (Inl ex, self, w\<lparr>fs := f1\<rparr>)
      | (None, f1) \<Rightarrow>
     (case write_docs P (temp_dir v) 0 documents [] f1 of
        (Inl ex, f2) \<Rightarrow> (Inl ex, self, w\<lparr>fs := f2\<rparr>)
      | (Inr doc_files, f2) \<Rightarrow>
     (case load_data P (backend_calls w) doc_files f2 of
        Inl ex \<Rightarrow> (Inl ex, self, w\<lparr>fs := f2, backend_calls := backend_calls w + 1\<rparr>)
      | Inr docs \<Rightarrow>
     (case remove_docs P doc_files f2 of
        (Some ex, f3) \<Rightarrow> (Inl ex, self, w\<lparr>fs := f3, backend_calls := backend_calls w + 1\<rparr>)
      | (None, f3) \<Rightarrow>
     (case os_rmdir P (temp_dir v) f3 of
        (Some ex, f4) \<Rightarrow> (Inl ex, self, w\<lparr>fs := f4, backend_calls := backend_calls w + 1\<rparr>)
      | (None, f4) \<Rightarrow>
     (case from_documents P (backend_calls w + 1) v docs of
        Inl ex \<Rightarrow> (Inl ex, self, w\<lparr>fs := f4, backend_calls := backend_calls w + 2\<rparr>)
      | Inr idx \<Rightarrow>
          (let build_time = clock P (time_reads w) - start_time
           in (Inr build_time,
               self\<lparr>index := Some idx, build_time := build_time\<rparr>,
               w\<lparr>fs := f4, backend_calls := backend_calls w + 2,
                  time_reads := time_reads w + 1\<rparr>))))))))"

text \<open>
  \<^verbatim>\<open>build_index\<close>: the clock is read, the block runs, and the \<^verbatim>\<open>except\<close> clause re-raises
  any exception under the variant's prefix. There is no \<^verbatim>\<open>finally\<close> clause.
\<close>

definition build_index ::
  "variant \<Rightarrow> ('fs, 'idx) platform \<Rightarrow> 'idx engine \<Rightarrow> string list \<Rightarrow> 'fs world
     \<Rightarrow> (exn + real) \<times> 'idx engine \<times> 'fs world" where
  "build_index v P self documents w =
     (let start_time = clock P (time_reads w)
      in case build_index_try v P self documents start_time (w\<lparr>time_reads := time_reads w + 1\<rparr>) of
           (Inl ex, self', w') \<Rightarrow>
             (Inl (Exception (build_failed_prefix v @ str_of_exn ex)), self', w')
         | (Inr t, self', w') \<Rightarrow> (Inr t, self', w'))"

definition not_built :: exn where
  "not_built = Exception ''Index not built. Call build_index() first.''"

text \<open>
  \<^verbatim>\<open>query\<close>: the check of \<^verbatim>\<open>self.index\<close> stands before the \<^verbatim>\<open>try\<close> block and before the
  first clock reading. The constructor of \<^verbatim>\<open>QueryResult\<close> reads the clock for the
  timestamp.
\<close>

definition query ::
  "variant \<Rightarrow> ('fs, 'idx) platform \<Rightarrow> 'idx engine \<Rightarrow> string \<Rightarrow> 'fs world
     \<Rightarrow> (exn + query_result) \<times> 'fs world" where
  "query v P self query_text w =
     (case index self of
        None \<Rightarrow> (Inl not_built, w)
      | Some idx \<Rightarrow>
          (let start_time = clock P (time_reads w)
           in case index_query P (backend_calls w) idx (similarity_top_k v) query_text of
                Inl ex \<Rightarrow>
                  (Inl (Exception (''Query failed: '' @ str_of_exn ex)),
                   w\<lparr>time_reads := time_reads w + 1, backend_calls := backend_calls w + 1\<rparr>)
              | Inr (resp, nodes) \<Rightarrow>
                  (Inr \<lparr>response = resp, source_nodes = nodes,
                        execution_time = clock P (time_reads w + 1) - start_time,
                        timestamp = clock P (time_reads w + 2)\<rparr>,
                   w\<lparr>time_reads := time_reads w + 3, backend_calls := backend_calls w + 1\<rparr>)))"

definition get_build_time :: "'idx engine \<Rightarrow> real" where
  "get_build_time self = build_time self"

definition is_initialized :: "'idx engine \<Rightarrow> bool" where
  "is_initialized self \<longleftrightarrow> index self \<noteq> None"

subsection \<open>A concrete platform\<close>

text \<open>
  A small file system with the outcomes of the four calls that matter to \<^verbatim>\<open>build_index\<close>:
  \<^verbatim>\<open>os.makedirs(d, exist_ok=True)\<close> fails only where a file has that name, \<^verbatim>\<open>open(p, 'w')\<close>
  creates or replaces a file, \<^verbatim>\<open>os.remove\<close> needs the file to exist, and \<^verbatim>\<open>os.rmdir\<close> needs
  an existing, empty directory. The retrieval library of \<open>disk_platform\<close> reads the files
  back (or fails in the reader, when \<open>reader_ok\<close> is false), keeps the documents as the
  index and answers a query with the first \<open>k\<close> of them; its clock advances one second
  at each reading.
\<close>

record disk =
  files :: "(string \<times> string) list"
  dirs :: "string list"

definition disk_makedirs :: "string \<Rightarrow> disk \<Rightarrow> exn option \<times> disk" where
  "disk_makedirs d f =
     (if d \<in> set (dirs f) then (None, f)
      else if d \<in> fst ` set (files f) then (Some (Exception ''File exists''), f)
      else (None, f\<lparr>dirs := dirs f @ [d]\<rparr>))"

definition disk_write :: "string \<Rightarrow> string \<Rightarrow> disk \<Rightarrow> exn option \<times> disk" where
  "disk_write p content f =
     (if p \<in> set (dirs f) then (Some (Exception ''Is a directory''), f)
      else (None, f\<lparr>files := filter (\<lambda>e. fst e \<noteq> p) (files f) @ [(p, content)]\<rparr>))"

definition disk_remove :: "string \<Rightarrow> disk \<Rightarrow> exn option \<times> disk" where
  "disk_remove p f =
     (if p \<in> fst ` set (files f) then (None, f\<lparr>files := filter (\<lambda>e. fst e \<noteq> p) (files f)\<rparr>)
      else (Some (Exception ''No such file or directory''), f))"

definition disk_rmdir :: "string \<Rightarrow> disk \<Rightarrow> exn option \<times> disk" where
  "disk_rmdir d f =
     (if d \<notin> set (dirs f) then (Some (Exception ''No such file or directory''), f)
      else if list_ex (\<lambda>e. prefix (d @ ''/'') (fst e)) (files f) \<or> list_ex (prefix (d @ ''/'')) (dirs f)
           then (Some (Exception ''Directory not empty''), f)
      else (None, f\<lparr>dirs := removeAll d (dirs f)\<rparr>))"

definition disk_platform :: "bool \<Rightarrow> (disk, string list) platform" where
  "disk_platform reader_ok =
     \<lparr>clock = real,
      os_makedirs = disk_makedirs, open_write = disk_write,
      os_remove = disk_remove, os_rmdir = disk_rmdir,
      init_backends = (\<lambda>_ _. None),
      load_data = (\<lambda>_ paths f.
         if reader_ok then Inr (map (\<lambda>p. case map_of (files f) p of Some t \<Rightarrow> t | None \<Rightarrow> []) paths)
         else Inl (Exception ''cannot read'')),
      from_documents = (\<lambda>_ _ docs. Inr docs),
      index_query = (\<lambda>_ idx k q. Inr (q, map HasText (take k idx)))\<rparr>"

definition empty_world :: "disk world" where
  "empty_world = \<lparr>fs = \<lparr>files = [], dirs = []\<rparr>, time_reads = 0, backend_calls = 0\<rparr>"

definition fresh_engine :: "string list engine" where
  "fresh_engine = \<lparr>model_name = ''llama3.1'', index = None, query_engine = None, build_time = 0\<rparr>"

text \<open>
  The engines on which no \<^verbatim>\<open>build_index\<close> call has succeeded yet: a freshly constructed
  one, and one left by a failed call on such an engine.
\<close>

inductive never_built :: "variant \<Rightarrow> ('fs, 'idx) platform \<Rightarrow> 'idx engine \<Rightarrow> bool"
  for v :: variant and P :: "('fs, 'idx) platform" where
  fresh: "engine_init P name w = (Inr self, w') \<Longrightarrow> never_built v P self"
| failed: "never_built v P self \<Longrightarrow> build_index v P self documents w = (Inl ex, self', w')
             \<Longrightarrow> never_built v P self'"

section \<open>Validation of an uploaded PDF\<close>

text \<open>
  The uploaded file is either an object with a \<^verbatim>\<open>read\<close> method or anything else the PDF
  reader accepts (a path). A stream is modelled as \<^verbatim>\<open>io.BytesIO\<close> behaves, of which
  Streamlit's uploaded file is a subclass: \<^verbatim>\<open>read()\<close> returns the bytes from the current
  position to the end and moves the position to the end, \<^verbatim>\<open>seek(n)\<close> sets the position,
  and both raise on a closed stream.
\<close>

record stream =
  data :: string
  pos :: nat
  closed :: bool

definition stream_read :: "stream \<Rightarrow> (exn + string) \<times> stream" where
  "stream_read s =
     (if closed s then (Inl (Exception ''I/O operation on closed file.''), s)
      else (Inr (drop (pos s) (data s)), s\<lparr>pos := max (pos s) (length (data s))\<rparr>))"

definition stream_seek :: "nat \<Rightarrow> stream \<Rightarrow> exn option \<times> stream" where
  "stream_seek target s =
     (if closed s then (Some (Exception ''I/O operation on closed file.''), s)
      else (None, s\<lparr>pos := target\<rparr>))"

datatype pdf_file = Stream stream | Path string

text \<open>
  \<^verbatim>\<open>PdfReader(...)\<close> of the pypdf library, given bytes or a path: it raises, or it gives a
  reader whose \<^verbatim>\<open>len(pdf_reader.pages)\<close> raises or is a page count.
\<close>

record pdf_library =
  reader_of_bytes :: "string \<Rightarrow> exn + (exn + nat)"
  reader_of_path :: "string \<Rightarrow> exn + (exn + nat)"

text \<open>The page-count test after the reader was made, lines 89 to 92.\<close>

definition check_pages :: "exn + nat \<Rightarrow> exn + bool \<times> string" where
  "check_pages pages =
     (case pages of
        Inl ex \<Rightarrow> Inl ex
      | Inr n \<Rightarrow> if n = 0 then Inr (False, ''PDF file appears to be empty'') else Inr (True, []))"

text \<open>
  The \<^verbatim>\<open>try\<close> block of \<^verbatim>\<open>validate_pdf\<close>. In the stream branch the reader is made first and
  \<^verbatim>\<open>pdf_file.seek(0)\<close> follows it.
\<close>

definition validate_pdf_try :: "pdf_library \<Rightarrow> pdf_file \<Rightarrow> (exn + bool \<times> string) \<times> pdf_file" where
  "validate_pdf_try L pdf_file =
     (case pdf_file of
        Stream s \<Rightarrow>
          (case stream_read s of
             (Inl ex, s1) \<Rightarrow> (Inl ex, Stream s1)
           | (Inr bytes, s1) \<Rightarrow>
          (case reader_of_bytes L bytes of
             Inl ex \<Rightarrow> (Inl ex, Stream s1)
           | Inr pages \<Rightarrow>
          (case stream_seek 0 s1 of
             (Some ex, s2) \<Rightarrow> (Inl ex, Stream s2)
           | (None, s2) \<Rightarrow> (check_pages pages, Stream s2))))
      | Path p \<Rightarrow>
          (case reader_of_path L p of
             Inl ex \<Rightarrow> (Inl ex, Path p)
           | Inr pages \<Rightarrow> (check_pages pages, Path p)))"

text \<open>
  \<^verbatim>\<open>validate_pdf\<close>: \<^verbatim>\<open>except Exception as e\<close> turns every exception of the block into the
  pair \<^verbatim>\<open>(False, f"Invalid PDF file: {str(e)}")\<close>. The result keeps the sum type, so that
  not raising is a property to prove; the second component is the file afterwards.
\<close>

definition validate_pdf :: "pdf_library \<Rightarrow> pdf_file \<Rightarrow> (exn + bool \<times> string) \<times> pdf_file" where
  "validate_pdf L pdf_file =
     (case validate_pdf_try L pdf_file of
        (Inl ex, pdf_file') \<Rightarrow> (Inr (False, ''Invalid PDF file: '' @ str_of_exn ex), pdf_file')
      | (Inr r, pdf_file') \<Rightarrow> (Inr r, pdf_file'))"

text \<open>
  A stand-in for the PDF library: bytes are accepted when they start with \<^verbatim>\<open>%PDF\<close>, each
  \<^verbatim>\<open>#\<close> in them counts as one page, and no path can be opened.
\<close>

definition toy_library :: pdf_library where
  "toy_library =
     \<lparr>reader_of_bytes = (\<lambda>bytes.
        if prefix ''%PDF'' bytes then Inr (Inr (length (filter (\<lambda>c. c = CHR ''#'') bytes)))
        else Inl (Exception ''invalid pdf header'')),
      reader_of_path = (\<lambda>p. Inl (Exception ''No such file or directory''))\<rparr>"

definition upload :: "string \<Rightarrow> stream" where
  "upload bytes = \<lparr>data = bytes, pos = 0, closed = False\<rparr>"

section \<open>Text chunking\<close>

text \<open>
  \<^verbatim>\<open>str.strip()\<close> removes leading and trailing white space. Among the code points below 256
  Python counts as white space 9 to 13, 28 to 32, 133 and 160.
\<close>

definition is_space :: "char \<Rightarrow> bool" where
  "is_space c =
     (let n = (of_char c :: nat)
      in (9 \<le> n \<and> n \<le> 13) \<or> (28 \<le> n \<and> n \<le> 32) \<or> n = 133 \<or> n = 160)"

definition strip :: "string \<Rightarrow> string" where
  "strip s = rev (dropWhile is_space (rev (dropWhile is_space s)))"

text \<open>
  \<^verbatim>\<open>text.split('. ')\<close>: the pieces between the occurrences of a period followed by a
  blank, found from the left without overlap; \<open>piece\<close> is the piece read so far.
\<close>

fun split_pieces :: "string \<Rightarrow> string \<Rightarrow> string list" where
  "split_pieces piece [] = [piece]"
| "split_pieces piece [c] = [piece @ [c]]"
| "split_pieces piece (c # d # rest) =
     (if c = CHR ''.'' \<and> d = CHR '' '' then piece # split_pieces [] rest
      else split_pieces (piece @ [c]) (d # rest))"

definition split_sentences :: "string \<Rightarrow> string list" where
  "split_sentences text = split_pieces [] text"

text \<open>
  The \<^verbatim>\<open>for\<close> loop of \<^verbatim>\<open>chunk_text\<close> with its two variables \<^verbatim>\<open>chunks\<close> and
  \<^verbatim>\<open>current_chunk\<close>; \<open>limit\<close> is \<^verbatim>\<open>chunk_size * 4\<close>.
\<close>

fun chunk_loop :: "int \<Rightarrow> string list \<Rightarrow> string list \<Rightarrow> string \<Rightarrow> string list \<times> string" where
  "chunk_loop limit [] chunks current_chunk = (chunks, current_chunk)"
| "chunk_loop limit (s # sentences) chunks current_chunk =
     (let sentence = (if s \<noteq> [] then s @ ''. '' else [])
      in if int (length (current_chunk @ sentence)) > limit
         then chunk_loop limit sentences
                (if current_chunk \<noteq> [] then chunks @ [strip current_chunk] else chunks) sentence
         else chunk_loop limit sentences chunks (current_chunk @ sentence))"

definition chunk_text :: "string \<Rightarrow> int \<Rightarrow> string list" where
  "chunk_text text chunk_size =
     (case chunk_loop (chunk_size * 4) (split_sentences text) [] [] of
        (chunks, current_chunk) \<Rightarrow>
          if strip current_chunk \<noteq> [] then chunks @ [strip current_chunk] else chunks)"

text \<open>
  The accumulator in the words of the specification. The sentences are the pieces of the
  split with the period and the blank put back where the split removed them, which is
  after every piece but the last, so that no sentence is dropped or altered. A new chunk
  begins when appending the next sentence would make the current chunk longer than the
  limit, and the last chunk is flushed at the end of the input. A chunk is emitted when
  it holds something.
\<close>

fun sentences_of :: "string list \<Rightarrow> string list" where
  "sentences_of [] = []"
| "sentences_of [p] = [p]"
| "sentences_of (p # q # ps) = (p @ ''. '') # sentences_of (q # ps)"

definition flush :: "string \<Rightarrow> string list" where
  "flush current = (if current = [] then [] else [current])"

fun accumulate_spec :: "int \<Rightarrow> string list \<Rightarrow> string \<Rightarrow> string list" where
  "accumulate_spec limit [] current = flush current"
| "accumulate_spec limit (s # sentences) current =
     (if int (length (current @ s)) > limit
      then flush current @ accumulate_spec limit sentences s
      else accumulate_spec limit sentences (current @ s))"

definition chunk_text_spec :: "string \<Rightarrow> int \<Rightarrow> string list" where
  "chunk_text_spec text chunk_size =
     accumulate_spec (chunk_size * 4) (sentences_of (split_sentences text)) []"

text \<open>A string with a character that \<^verbatim>\<open>strip\<close> keeps.\<close>

definition has_ink :: "string \<Rightarrow> bool" where
  "has_ink s \<longleftrightarrow> (\<exists>c \<in> set s. \<not> is_space c)"

section \<open>Formatting a duration\<close>

text \<open>
  \<^verbatim>\<open>format_time\<close> takes a Python float. A finite double is taken as the rational number it
  denotes; not-a-number, the infinities and the sign of zero have no counterpart here.
  Comparison of doubles, \<^verbatim>\<open>fmod\<close> and the conversion to decimal digits are exact on these
  values; multiplication, subtraction and division round the exact result to the nearest
  double, ties to even: 53 significant bits, spaced \<open>2\<^sup>-\<^sup>1\<^sup>0\<^sup>7\<^sup>4\<close> apart at the bottom of
  the range. The results that occur in \<^verbatim>\<open>format_time\<close> never exceed the largest double.
\<close>

definition round_half_even :: "rat \<Rightarrow> int" where
  "round_half_even x =
     (let f = \<lfloor>x\<rfloor>; r = x - of_int f
      in if r < 1 / 2 then f else if 1 / 2 < r then f + 1 else if even f then f else f + 1)"

fun bit_length :: "nat \<Rightarrow> nat" where
  "bit_length n = (if n = 0 then 0 else Suc (bit_length (n div 2)))"

declare bit_length.simps [simp del]

definition pow2 :: "int \<Rightarrow> rat" where
  "pow2 e = (if 0 \<le> e then 2 ^ nat e else 1 / 2 ^ nat (- e))"

text \<open>The exponent \<open>e\<close> with \<open>2\<^sup>e \<le> x < 2\<^sup>e\<^sup>+\<^sup>1\<close>, for positive \<open>x\<close>.\<close>

definition binary_exponent :: "rat \<Rightarrow> int" where
  "binary_exponent x =
     (case quotient_of x of
        (p, q) \<Rightarrow>
          (let e = int (bit_length (nat p)) - int (bit_length (nat q))
           in if pow2 e \<le> x then e else e - 1))"

definition double_round :: "rat \<Rightarrow> rat" where
  "double_round x =
     (if x = 0 then 0
      else (let e = max (binary_exponent \<bar>x\<bar> - 52) (- 1074)
            in sgn x * of_int (round_half_even (\<bar>x\<bar> / pow2 e)) * pow2 e))"

text \<open>
  The format specification \<^verbatim>\<open>:.pf\<close> applied to a float: the exact value is rounded to \<open>p\<close>
  decimals, ties to even, and printed with all \<open>p\<close> decimals.
\<close>

fun digits_of :: "nat \<Rightarrow> nat \<Rightarrow> string" where
  "digits_of 0 n = []"
| "digits_of (Suc p) n = digits_of p (n div 10) @ [digit_char (n mod 10)]"

definition format_fixed :: "nat \<Rightarrow> rat \<Rightarrow> string" where
  "format_fixed p x =
     (let n = nat (round_half_even (\<bar>x\<bar> * 10 ^ p))
      in (if x < 0 then ''-'' else []) @ str_of_nat (n div 10 ^ p)
         @ (if p = 0 then [] else ''.'' @ digits_of p (n mod 10 ^ p)))"

definition str_of_int :: "int \<Rightarrow> string" where
  "str_of_int i = (if i < 0 then ''-'' @ str_of_nat (nat (- i)) else str_of_nat (nat i))"

text \<open>
  \<^verbatim>\<open>seconds % 60\<close> and \<^verbatim>\<open>seconds // 60\<close> for a float \<open>seconds\<close> and the positive divisor 60,
  as CPython computes them: the remainder is \<^verbatim>\<open>fmod\<close>, moved into the divisor's sign; the
  quotient is \<^verbatim>\<open>(seconds - mod) / 60\<close>, lowered by one where the remainder was moved, then
  snapped to the nearest whole number.
\<close>

definition fmod60 :: "rat \<Rightarrow> rat" where
  "fmod60 x = sgn x * (\<bar>x\<bar> - 60 * of_int \<lfloor>\<bar>x\<bar> / 60\<rfloor>)"

definition float_mod60 :: "rat \<Rightarrow> rat" where
  "float_mod60 x = (let m = fmod60 x in if m < 0 then double_round (m + 60) else m)"

definition float_floordiv60 :: "rat \<Rightarrow> rat" where
  "float_floordiv60 x =
     (let m = fmod60 x;
          d = double_round (double_round (x - m) / 60);
          d = (if m < 0 then double_round (d - 1) else d);
          f = of_int \<lfloor>d\<rfloor>
      in if 1 / 2 < double_round (d - f) then double_round (f + 1) else f)"

text \<open>\<^verbatim>\<open>PerformanceTracker.format_time\<close>; \<^verbatim>\<open>int(...)\<close> of a whole float is that integer.\<close>

definition format_time :: "rat \<Rightarrow> string" where
  "format_time seconds =
     (if seconds < 1 then format_fixed 1 (double_round (seconds * 1000)) @ ''ms''
      else if seconds < 60 then format_fixed 2 seconds @ ''s''
      else (let minutes = \<lfloor>float_floordiv60 seconds\<rfloor>;
                secs = float_mod60 seconds
            in str_of_int minutes @ ''m '' @ format_fixed 1 secs @ ''s''))"

text \<open>
  Reading a printed number back: the decimal digits and the number they denote.
\<close>

definition is_digit :: "char \<Rightarrow> bool" where
  "is_digit c \<longleftrightarrow> c \<in> set ''0123456789''"

definition digit_value :: "char \<Rightarrow> nat" where
  "digit_value c = of_char c - 48"

definition nat_of_digits :: "string \<Rightarrow> nat" where
  "nat_of_digits ds = foldl (\<lambda>a c. 10 * a + digit_value c) 0 ds"

definition decimal_value :: "string \<Rightarrow> string \<Rightarrow> rat" where
  "decimal_value whole decimals =
     of_nat (nat_of_digits whole) + of_nat (nat_of_digits decimals) / 10 ^ length decimals"

text \<open>The float that a decimal literal of the source text denotes.\<close>

definition float_literal :: "rat \<Rightarrow> rat" where
  "float_literal x = double_round x"

section \<open>Source text of a query result\<close>

lemma collect_texts_acc:
  "foldl (\<lambda>texts n. texts @ [node_text n]) acc nodes = acc @ map node_text nodes"
  by (induction nodes arbitrary: acc) simp_all

lemma collect_texts_map: "collect_texts nodes = map node_text nodes"
  by (simp add: collect_texts_def collect_texts_acc)

text \<open>
  Claim C8, as the code has it. \<^verbatim>\<open>get_source_text\<close> returns the literal
  \<^verbatim>\<open>"No sources retrieved"\<close> when the result has no source fragments; otherwise it returns
  the texts of the first three fragments at most, in stored order, joined by a line
  holding three dashes. The returned text is that literal when the fragment list is
  empty, and in the one other case where the joined texts spell it.
\<close>

theorem get_source_text_spec:
  "get_source_text qr =
     (if source_nodes qr = [] then ''No sources retrieved''
      else join_str [CHR 0x0A, CHR ''-'', CHR ''-'', CHR ''-'', CHR 0x0A]
             (map node_text (take 3 (source_nodes qr))))
   \<and> length (take 3 (source_nodes qr)) \<le> 3
   \<and> (get_source_text qr = ''No sources retrieved'' \<longleftrightarrow>
        source_nodes qr = []
        \<or> join_str [CHR 0x0A, CHR ''-'', CHR ''-'', CHR ''-'', CHR 0x0A]
             (map node_text (take 3 (source_nodes qr))) = ''No sources retrieved'')"
  by (simp add: get_source_text_def collect_texts_map take_map)

text \<open>
  The claim's "exactly when" fails: a result with one fragment whose text is the
  placeholder has a non-empty fragment list and still returns the placeholder.
\<close>

theorem get_source_text_counterexample:
  "source_nodes \<lparr>response = ''r'', source_nodes = [HasText ''No sources retrieved''],
                  execution_time = 1, timestamp = 0\<rparr> \<noteq> []
   \<and> get_source_text \<lparr>response = ''r'', source_nodes = [HasText ''No sources retrieved''],
                      execution_time = 1, timestamp = 0\<rparr> = ''No sources retrieved''"
  by (simp add: get_source_text_def collect_texts_def)

section \<open>Comparison of the two execution times\<close>

text \<open>
  Claim C1, as the code has it. The reported difference is the absolute value of the
  difference of the two execution times and is never negative; the label is
  \<^verbatim>\<open>"Vector"\<close> only when the Vector time is strictly smaller, so equal times are
  labelled \<^verbatim>\<open>"Tree"\<close>.
\<close>

theorem comparison_tie_labels_tree:
  "time_diff v t = \<bar>execution_time v - execution_time t\<bar>
   \<and> 0 \<le> time_diff v t
   \<and> (faster_engine v t = ''Vector'' \<longleftrightarrow> execution_time v < execution_time t)
   \<and> (faster_engine v t = ''Tree'' \<longleftrightarrow> execution_time t \<le> execution_time v)"
  by (auto simp add: time_diff_def faster_engine_def)

text \<open>
  The claim's tie-break toward Vector fails: two results with the same execution time.
\<close>

theorem comparison_tie_counterexample:
  "execution_time \<lparr>response = ''a'', source_nodes = [], execution_time = 2, timestamp = 0\<rparr>
     = execution_time \<lparr>response = ''b'', source_nodes = [], execution_time = 2, timestamp = 1\<rparr>
   \<and> faster_engine
        \<lparr>response = ''a'', source_nodes = [], execution_time = 2, timestamp = 0\<rparr>
        \<lparr>response = ''b'', source_nodes = [], execution_time = 2, timestamp = 1\<rparr>
      \<noteq> ''Vector''"
  by (simp add: faster_engine_def)

section \<open>Engine state across \<^verbatim>\<open>build_index\<close>\<close>

lemma build_index_try_failure:
  "build_index_try v P self documents start_time w = (Inl ex, self', w') \<Longrightarrow> self' = self"
  by (auto simp add: build_index_try_def Let_def split: prod.splits option.splits sum.splits)

lemma build_index_failure:
  "build_index v P self documents w = (Inl ex, self', w') \<Longrightarrow> self' = self"
  by (auto simp add: build_index_def Let_def split: prod.splits sum.splits
      dest: build_index_try_failure)

lemma build_index_try_success:
  "build_index_try v P self documents start_time w = (Inr t, self', w') \<Longrightarrow>
     index self' \<noteq> None \<and> build_time self' = t"
  by (auto simp add: build_index_try_def Let_def split: prod.splits option.splits sum.splits)

lemma build_index_success:
  "build_index v P self documents w = (Inr t, self', w') \<Longrightarrow>
     index self' \<noteq> None \<and> build_time self' = t"
  by (auto simp add: build_index_def Let_def split: prod.splits sum.splits
      dest: build_index_try_success)

lemma engine_init_fields:
  "engine_init P name w = (Inr self, w') \<Longrightarrow> index self = None \<and> build_time self = 0"
  by (auto simp add: engine_init_def Let_def split: option.splits)

lemma never_built_index: "never_built v P self \<Longrightarrow> index self = None"
  by (induction rule: never_built.induct)
     (auto dest: engine_init_fields build_index_failure)

lemmas disk_simps =
  build_index_def build_index_try_def disk_platform_def empty_world_def fresh_engine_def
  disk_makedirs_def disk_write_def disk_remove_def disk_rmdir_def path_join_def
  str_of_nat.simps digit_char_def Let_def

lemma fresh_engine_init:
  "engine_init (disk_platform ok) ''llama3.1'' empty_world
     = (Inr fresh_engine, empty_world\<lparr>backend_calls := 1\<rparr>)"
  by (simp add: engine_init_def disk_platform_def empty_world_def fresh_engine_def)

lemma failing_build_run:
  "build_index v (disk_platform False) fresh_engine [''x''] empty_world
     = (Inl (Exception (build_failed_prefix v @ ''cannot read'')), fresh_engine,
        \<lparr>fs = \<lparr>files = [(temp_dir v @ ''/doc_0.txt'', ''x'')], dirs = [temp_dir v]\<rparr>,
         time_reads = 1, backend_calls = 1\<rparr>)"
  by (cases v) (simp_all add: disk_simps)

lemma successful_build_run:
  "build_index v (disk_platform True) fresh_engine [''x''] empty_world
     = (Inr 1, fresh_engine\<lparr>index := Some [''x''], build_time := 1\<rparr>,
        \<lparr>fs = \<lparr>files = [], dirs = []\<rparr>, time_reads = 2, backend_calls = 2\<rparr>)"
  by (cases v) (simp_all add: disk_simps)

text \<open>
  Claim C10. A freshly constructed engine reports build time 0 and is not initialized.
  A \<^verbatim>\<open>build_index\<close> call that raises leaves the engine as it was, so the stored build time
  and the index handle keep their values; a call that returns stores the returned time.
\<close>

theorem build_time_only_on_success:
  "(engine_init P name w0 = (Inr self0, w1)
      \<longrightarrow> get_build_time self0 = 0 \<and> \<not> is_initialized self0)
   \<and> (build_index v P self documents w = (Inl ex, self', w')
      \<longrightarrow> self' = self \<and> get_build_time self' = get_build_time self
          \<and> is_initialized self' = is_initialized self)
   \<and> (never_built v P self \<longrightarrow> get_build_time self = 0 \<and> \<not> is_initialized self)
   \<and> (build_index v P self documents w = (Inr t, self', w')
      \<longrightarrow> get_build_time self' = t \<and> is_initialized self')"
proof -
  have never: "never_built v P e \<Longrightarrow> build_time e = 0" for e
    by (induction rule: never_built.induct)
       (auto dest: engine_init_fields build_index_failure)
  show ?thesis
    using never [of self]
    by (auto simp add: get_build_time_def is_initialized_def
        dest: engine_init_fields build_index_failure build_index_success never_built_index)
qed

theorem build_time_only_on_success_witness:
  "engine_init (disk_platform False) ''llama3.1'' empty_world
     = (Inr fresh_engine, empty_world\<lparr>backend_calls := 1\<rparr>)
   \<and> get_build_time fresh_engine = 0 \<and> \<not> is_initialized fresh_engine
   \<and> fst (build_index Tree (disk_platform False) fresh_engine [''x''] empty_world)
       = Inl (Exception ''Failed to build tree index: cannot read'')
   \<and> fst (snd (build_index Tree (disk_platform False) fresh_engine [''x''] empty_world))
       = fresh_engine
   \<and> never_built Tree (disk_platform False) fresh_engine
   \<and> fst (build_index Vector (disk_platform True) fresh_engine [''x''] empty_world) = Inr 1
   \<and> get_build_time
       (fst (snd (build_index Vector (disk_platform True) fresh_engine [''x''] empty_world))) = 1"
proof -
  have init: "engine_init (disk_platform False) ''llama3.1'' empty_world
     = (Inr fresh_engine, empty_world\<lparr>backend_calls := 1\<rparr>)"
    by (rule fresh_engine_init)
  have nb: "never_built Tree (disk_platform False) fresh_engine"
    by (rule never_built.fresh [OF init])
  note fail = failing_build_run [of Tree]
  note ok = successful_build_run [of Vector]
  from build_time_only_on_success
         [where P = "disk_platform False" and name = "''llama3.1''" and ?w0.0 = empty_world
            and ?self0.0 = fresh_engine and ?w1.0 = "empty_world\<lparr>backend_calls := 1\<rparr>"
            and v = Tree and self = fresh_engine and documents = "[''x'']" and w = empty_world]
       build_time_only_on_success
         [where P = "disk_platform True" and v = Vector and self = fresh_engine
            and documents = "[''x'']" and w = empty_world and t = 1
            and self' = "fresh_engine\<lparr>index := Some [''x''], build_time := 1\<rparr>"]
       init nb fail ok
  show ?thesis by simp
qed

section \<open>Query before and after a build\<close>

text \<open>
  Claim C4. On an engine without an index, so on every engine on which no
  \<^verbatim>\<open>build_index\<close> call has succeeded, \<^verbatim>\<open>query\<close> raises the not-built exception and leaves
  the world as it was: no call into the retrieval library and no clock reading. After a
  \<^verbatim>\<open>build_index\<close> call that returned, \<^verbatim>\<open>query\<close> does not raise that exception.
\<close>

theorem query_needs_build:
  "(never_built v P self \<longrightarrow> index self = None)
   \<and> (index self = None \<longrightarrow>
        query v P self query_text w = (Inl not_built, w)
        \<and> backend_calls (snd (query v P self query_text w)) = backend_calls w)
   \<and> (build_index v P self documents w = (Inr t, self', w')
        \<longrightarrow> fst (query v P self' query_text w'') \<noteq> Inl not_built)"
proof -
  have after: "fst (query v P e query_text w'') \<noteq> Inl not_built" if "index e \<noteq> None" for e
    using that
    by (auto simp add: query_def not_built_def Let_def split: option.splits sum.splits)
  have built: "build_index v P self documents w = (Inr t, self', w')
      \<Longrightarrow> fst (query v P self' query_text w'') \<noteq> Inl not_built"
    by (rule after) (simp add: build_index_success)
  have before: "index self = None \<Longrightarrow> query v P self query_text w = (Inl not_built, w)"
    by (simp add: query_def)
  show ?thesis
    using built before never_built_index [of v P self] by simp
qed

theorem query_needs_build_witness:
  "never_built Vector (disk_platform True) fresh_engine
   \<and> index fresh_engine = None
   \<and> query Vector (disk_platform True) fresh_engine ''risks?'' empty_world
       = (Inl (Exception ''Index not built. Call build_index() first.''), empty_world)
   \<and> build_index Vector (disk_platform True) fresh_engine [''x''] empty_world
       = (Inr 1, fresh_engine\<lparr>index := Some [''x''], build_time := 1\<rparr>,
          \<lparr>fs = \<lparr>files = [], dirs = []\<rparr>, time_reads = 2, backend_calls = 2\<rparr>)
   \<and> fst (query Vector (disk_platform True)
            (fresh_engine\<lparr>index := Some [''x''], build_time := 1\<rparr>) ''risks?''
            \<lparr>fs = \<lparr>files = [], dirs = []\<rparr>, time_reads = 2, backend_calls = 2\<rparr>)
       \<noteq> Inl not_built"
proof -
  have nb: "never_built Vector (disk_platform True) fresh_engine"
    by (rule never_built.fresh [OF fresh_engine_init])
  have none: "index fresh_engine = None"
    by (simp add: fresh_engine_def)
  note ok = successful_build_run [of Vector]
  from query_needs_build
         [where v = Vector and P = "disk_platform True" and self = fresh_engine
            and query_text = "''risks?''" and w = empty_world and documents = "[''x'']" and t = 1
            and self' = "fresh_engine\<lparr>index := Some [''x''], build_time := 1\<rparr>"
            and w' = "\<lparr>fs = \<lparr>files = [], dirs = []\<rparr>, time_reads = 2, backend_calls = 2\<rparr>"
            and w'' = "\<lparr>fs = \<lparr>files = [], dirs = []\<rparr>, time_reads = 2, backend_calls = 2\<rparr>"]
       nb none ok
  show ?thesis by (simp add: not_built_def)
qed

section \<open>Temporary files of \<^verbatim>\<open>build_index\<close>\<close>

text \<open>
  Claim C2, at a failing input. One document, an empty disk, and a reader that raises:
  both variants re-raise from \<^verbatim>\<open>build_index\<close> while the written file \<^verbatim>\<open>doc_0.txt\<close> and the
  temporary directory are still on the disk, because the removal statements stand
  inside the \<^verbatim>\<open>try\<close> block after the reader call.
\<close>

theorem build_index_leaves_temp_files:
  "fst (build_index v (disk_platform False) fresh_engine [''x''] empty_world)
     = Inl (Exception (build_failed_prefix v @ ''cannot read''))
   \<and> files (fs empty_world) = [] \<and> dirs (fs empty_world) = []
   \<and> files (fs (snd (snd (build_index v (disk_platform False) fresh_engine [''x''] empty_world))))
       = [(temp_dir v @ ''/doc_0.txt'', ''x'')]
   \<and> dirs (fs (snd (snd (build_index v (disk_platform False) fresh_engine [''x''] empty_world))))
       = [temp_dir v]"
  by (cases v) (simp_all add: disk_simps)

section \<open>\<^verbatim>\<open>validate_pdf\<close> fails closed\<close>

lemma validate_pdf_result:
  "\<exists>ok msg. fst (validate_pdf L f) = Inr (ok, msg) \<and> (ok \<longrightarrow> msg = []) \<and> (\<not> ok \<longrightarrow> msg \<noteq> [])"
  by (auto simp add: validate_pdf_def validate_pdf_try_def check_pages_def
      split: pdf_file.splits prod.splits sum.splits option.splits)

lemma read_then_seek:
  "stream_read s = (Inr bytes, s1) \<Longrightarrow>
     \<not> closed s \<and> bytes = drop (pos s) (data s) \<and> stream_seek 0 s1 = (None, s\<lparr>pos := 0\<rparr>)"
  by (auto simp add: stream_read_def stream_seek_def split: if_splits)

lemma validate_stream_unreadable:
  "fst (stream_read s) = Inl ex \<Longrightarrow>
     fst (validate_pdf L (Stream s)) = Inr (False, ''Invalid PDF file: '' @ str_of_exn ex)"
  by (cases "stream_read s") (simp add: validate_pdf_def validate_pdf_try_def)

lemma validate_stream_corrupt:
  "fst (stream_read s) = Inr bytes \<Longrightarrow> reader_of_bytes L bytes = Inl ex \<Longrightarrow>
     fst (validate_pdf L (Stream s)) = Inr (False, ''Invalid PDF file: '' @ str_of_exn ex)"
  by (cases "stream_read s") (simp add: validate_pdf_def validate_pdf_try_def)

lemma validate_stream_pages:
  "fst (stream_read s) = Inr bytes \<Longrightarrow> reader_of_bytes L bytes = Inr pages \<Longrightarrow>
     validate_pdf L (Stream s) =
       (case check_pages pages of
          Inl ex \<Rightarrow> Inr (False, ''Invalid PDF file: '' @ str_of_exn ex)
        | Inr r \<Rightarrow> Inr r,
        Stream (s\<lparr>pos := 0\<rparr>))"
  by (cases "stream_read s")
     (auto simp add: validate_pdf_def validate_pdf_try_def dest!: read_then_seek split: sum.splits)

lemma validate_path:
  "validate_pdf L (Path p) =
     (case reader_of_path L p of
        Inl ex \<Rightarrow> Inr (False, ''Invalid PDF file: '' @ str_of_exn ex)
      | Inr pages \<Rightarrow>
          (case check_pages pages of
             Inl ex \<Rightarrow> Inr (False, ''Invalid PDF file: '' @ str_of_exn ex)
           | Inr r \<Rightarrow> Inr r),
      Path p)"
  by (simp add: validate_pdf_def validate_pdf_try_def split: sum.splits)

text \<open>
  Claim C6. \<^verbatim>\<open>validate_pdf\<close> always returns a pair and never an exception; the message is
  empty when the flag is true and non-empty when it is false. The flag is false, with
  the exception's text after \<^verbatim>\<open>"Invalid PDF file: "\<close>, when the stream cannot be read, when
  the PDF reader rejects the bytes or the path, and when counting the pages raises; it is
  false with \<^verbatim>\<open>"PDF file appears to be empty"\<close> when the page count is zero; in the
  remaining case, a readable file with at least one page, the result is \<^verbatim>\<open>(True, "")\<close>.
\<close>

theorem validate_pdf_fails_closed:
  "(\<exists>ok msg. fst (validate_pdf L f) = Inr (ok, msg)
       \<and> (ok \<longrightarrow> msg = []) \<and> (\<not> ok \<longrightarrow> msg \<noteq> []))
   \<and> (fst (stream_read s) = Inl ex \<longrightarrow>
        fst (validate_pdf L (Stream s)) = Inr (False, ''Invalid PDF file: '' @ str_of_exn ex))
   \<and> (fst (stream_read s) = Inr bytes \<and> reader_of_bytes L bytes = Inl ex \<longrightarrow>
        fst (validate_pdf L (Stream s)) = Inr (False, ''Invalid PDF file: '' @ str_of_exn ex))
   \<and> (fst (stream_read s) = Inr bytes \<and> reader_of_bytes L bytes = Inr (Inl ex) \<longrightarrow>
        fst (validate_pdf L (Stream s)) = Inr (False, ''Invalid PDF file: '' @ str_of_exn ex))
   \<and> (fst (stream_read s) = Inr bytes \<and> reader_of_bytes L bytes = Inr (Inr 0) \<longrightarrow>
        fst (validate_pdf L (Stream s)) = Inr (False, ''PDF file appears to be empty''))
   \<and> (fst (stream_read s) = Inr bytes \<and> reader_of_bytes L bytes = Inr (Inr n) \<and> 0 < n \<longrightarrow>
        fst (validate_pdf L (Stream s)) = Inr (True, []))
   \<and> (reader_of_path L p = Inl ex \<or> reader_of_path L p = Inr (Inl ex) \<longrightarrow>
        fst (validate_pdf L (Path p)) = Inr (False, ''Invalid PDF file: '' @ str_of_exn ex))
   \<and> (reader_of_path L p = Inr (Inr 0) \<longrightarrow>
        fst (validate_pdf L (Path p)) = Inr (False, ''PDF file appears to be empty''))
   \<and> (reader_of_path L p = Inr (Inr n) \<and> 0 < n \<longrightarrow>
        fst (validate_pdf L (Path p)) = Inr (True, []))"
  using validate_pdf_result [of L f]
  by (auto simp add: validate_stream_unreadable validate_stream_corrupt validate_stream_pages
      validate_path check_pages_def)

lemma toy_reads:
  "fst (stream_read (upload bytes)) = Inr bytes"
  "fst (stream_read \<lparr>data = bytes, pos = 0, closed = True\<rparr>)
     = Inl (Exception ''I/O operation on closed file.'')"
  by (simp_all add: stream_read_def upload_def)

lemma toy_parses:
  "reader_of_bytes toy_library ''hello'' = Inl (Exception ''invalid pdf header'')"
  "reader_of_bytes toy_library ''%PDF'' = Inr (Inr 0)"
  "reader_of_bytes toy_library ''%PDF##'' = Inr (Inr 2)"
  "reader_of_path toy_library ''a.pdf'' = Inl (Exception ''No such file or directory'')"
  by (simp_all add: toy_library_def)

theorem validate_pdf_fails_closed_witness:
  "fst (validate_pdf toy_library (Stream \<lparr>data = ''%PDF##'', pos = 0, closed = True\<rparr>))
     = Inr (False, ''Invalid PDF file: I/O operation on closed file.'')
   \<and> fst (validate_pdf toy_library (Stream (upload ''hello'')))
     = Inr (False, ''Invalid PDF file: invalid pdf header'')
   \<and> fst (validate_pdf toy_library (Stream (upload ''%PDF'')))
     = Inr (False, ''PDF file appears to be empty'')
   \<and> fst (validate_pdf toy_library (Stream (upload ''%PDF##''))) = Inr (True, [])
   \<and> fst (validate_pdf toy_library (Path ''a.pdf''))
     = Inr (False, ''Invalid PDF file: No such file or directory'')"
  using validate_pdf_fails_closed
          [where L = toy_library and s = "\<lparr>data = ''%PDF##'', pos = 0, closed = True\<rparr>"
             and ex = "Exception ''I/O operation on closed file.''"]
        validate_pdf_fails_closed
          [where L = toy_library and s = "upload ''hello''" and bytes = "''hello''"
             and ex = "Exception ''invalid pdf header''"]
        validate_pdf_fails_closed
          [where L = toy_library and s = "upload ''%PDF''" and bytes = "''%PDF''"]
        validate_pdf_fails_closed
          [where L = toy_library and s = "upload ''%PDF##''" and bytes = "''%PDF##''" and n = 2]
        validate_pdf_fails_closed
          [where L = toy_library and p = "''a.pdf''"
             and ex = "Exception ''No such file or directory''"]
  by (simp add: toy_reads toy_parses)

section \<open>The stream position after \<^verbatim>\<open>validate_pdf\<close>\<close>

text \<open>
  Claim C7, as the code has it. When the stream can be read and the PDF reader accepts
  its bytes, \<^verbatim>\<open>validate_pdf\<close> returns with the stream at position 0 and otherwise
  unchanged, whatever the page count says, so also on the zero-page return with a false
  flag; a stream that stood at position 0 before is exactly as it was.
\<close>

theorem validate_pdf_rewinds_parsed_stream:
  assumes "\<not> closed s" and "reader_of_bytes L (drop (pos s) (data s)) = Inr pages"
  shows "snd (validate_pdf L (Stream s)) = Stream (s\<lparr>pos := 0\<rparr>)
         \<and> (pos s = 0 \<longrightarrow> snd (validate_pdf L (Stream s)) = Stream s)
         \<and> (pages = Inr 0 \<longrightarrow>
              fst (validate_pdf L (Stream s)) = Inr (False, ''PDF file appears to be empty''))"
proof -
  from assms(1) have "fst (stream_read s) = Inr (drop (pos s) (data s))"
    by (simp add: stream_read_def)
  from validate_stream_pages [OF this assms(2)]
  have run: "validate_pdf L (Stream s) =
       (case check_pages pages of
          Inl ex \<Rightarrow> Inr (False, ''Invalid PDF file: '' @ str_of_exn ex)
        | Inr r \<Rightarrow> Inr r,
        Stream (s\<lparr>pos := 0\<rparr>))" .
  show ?thesis
    by (auto simp add: run check_pages_def)
qed

theorem validate_pdf_rewinds_parsed_stream_witness:
  "\<not> closed (upload ''%PDF'')
   \<and> reader_of_bytes toy_library (drop (pos (upload ''%PDF'')) (data (upload ''%PDF''))) = Inr (Inr 0)
   \<and> validate_pdf toy_library (Stream (upload ''%PDF''))
       = (Inr (False, ''PDF file appears to be empty''), Stream (upload ''%PDF''))"
proof -
  have open_stream: "\<not> closed (upload ''%PDF'')"
    by (simp add: upload_def)
  have parsed: "reader_of_bytes toy_library (drop (pos (upload ''%PDF'')) (data (upload ''%PDF'')))
      = Inr (Inr 0)"
    by (simp add: upload_def toy_library_def)
  have start: "pos (upload ''%PDF'') = 0"
    by (simp add: upload_def)
  from validate_pdf_rewinds_parsed_stream [OF open_stream parsed] start open_stream parsed
  show ?thesis by (simp add: prod_eq_iff)
qed

text \<open>
  The claim as stated fails on two inputs. A stream of bytes that the reader rejects,
  standing at position 0, is left at its end (position 5) on the return with a false
  flag; and a stream standing at position 1 whose remaining bytes are a valid document is
  left at position 0, not at 1.
\<close>

theorem validate_pdf_position_counterexample:
  "pos (upload ''hello'') = 0
   \<and> validate_pdf toy_library (Stream (upload ''hello''))
       = (Inr (False, ''Invalid PDF file: invalid pdf header''),
          Stream \<lparr>data = ''hello'', pos = 5, closed = False\<rparr>)
   \<and> validate_pdf toy_library (Stream \<lparr>data = ''x%PDF#'', pos = 1, closed = False\<rparr>)
       = (Inr (True, []), Stream \<lparr>data = ''x%PDF#'', pos = 0, closed = False\<rparr>)"
  by (simp add: validate_pdf_def validate_pdf_try_def toy_library_def upload_def
      stream_read_def stream_seek_def check_pages_def)

section \<open>Stripping and splitting\<close>

lemma dropWhile_all_iff: "(\<forall>x \<in> set (dropWhile P xs). P x) \<longleftrightarrow> (\<forall>x \<in> set xs. P x)"
proof
  assume all: "\<forall>x \<in> set (dropWhile P xs). P x"
  have "dropWhile P xs = []"
  proof (rule ccontr)
    assume ne: "dropWhile P xs \<noteq> []"
    then have "\<not> P (hd (dropWhile P xs))" by (rule hd_dropWhile)
    moreover from ne have "hd (dropWhile P xs) \<in> set (dropWhile P xs)" by simp
    ultimately show False using all by blast
  qed
  then show "\<forall>x \<in> set xs. P x" by (simp add: dropWhile_eq_Nil_conv)
next
  assume "\<forall>x \<in> set xs. P x"
  then show "\<forall>x \<in> set (dropWhile P xs). P x" by (blast dest: set_dropWhileD)
qed

lemma strip_Nil_iff: "strip s = [] \<longleftrightarrow> \<not> has_ink s"
  by (simp add: strip_def has_ink_def dropWhile_eq_Nil_conv dropWhile_all_iff)

lemma dropWhile_id: "xs = [] \<or> \<not> P (hd xs) \<Longrightarrow> dropWhile P xs = xs"
  by (cases xs) auto

lemma dropWhile_head: "dropWhile P xs = [] \<or> \<not> P (hd (dropWhile P xs))"
  using hd_dropWhile [of P xs] by blast

lemma strip_strip: "strip (strip s) = strip s"
proof -
  define y where "y = dropWhile is_space s"
  define z where "z = dropWhile is_space (rev y)"
  have z_head: "z = [] \<or> \<not> is_space (hd z)"
    unfolding z_def by (rule dropWhile_head)
  have y_head: "y = [] \<or> \<not> is_space (hd y)"
    unfolding y_def by (rule dropWhile_head)
  have "rev z = [] \<or> \<not> is_space (hd (rev z))"
  proof (cases "z = []")
    case True
    then show ?thesis by simp
  next
    case False
    then have "rev y \<noteq> []" by (auto simp add: z_def)
    then have y_ne: "y \<noteq> []" by simp
    obtain pre where pre: "rev y = pre @ z"
      unfolding z_def by (metis takeWhile_dropWhile_id)
    then have "y = rev z @ rev pre" by (metis rev_append rev_rev_ident)
    with False have "hd (rev z) = hd y" by (simp add: hd_append)
    with y_head y_ne show ?thesis by simp
  qed
  then have "dropWhile is_space (rev z) = rev z" by (rule dropWhile_id)
  moreover from z_head have "dropWhile is_space z = z" by (rule dropWhile_id)
  ultimately have "rev (dropWhile is_space (rev (dropWhile is_space (rev z)))) = rev z"
    by simp
  then show ?thesis by (simp add: strip_def y_def z_def)
qed

lemma period_is_ink: "\<not> is_space CHR ''.''"
  by (simp add: is_space_def)

lemma has_ink_sentence: "has_ink (current @ s @ ''. '')"
  using period_is_ink by (auto simp add: has_ink_def)

lemma has_ink_sentence0: "has_ink (s @ ''. '')"
  using period_is_ink by (auto simp add: has_ink_def)

lemma has_ink_nonempty: "has_ink s \<Longrightarrow> s \<noteq> []"
  by (auto simp add: has_ink_def)

lemma split_pieces_join: "join_str ''. '' (split_pieces piece t) = piece @ t"
proof (induction piece t rule: split_pieces.induct)
  case (3 piece c d rest)
  show ?case
  proof (cases "c = CHR ''.'' \<and> d = CHR '' ''")
    case True
    with 3 show ?thesis
      by (cases "split_pieces [] rest") auto
  next
    case False
    with 3 show ?thesis by auto
  qed
qed simp_all

lemma split_sentences_join: "join_str ''. '' (split_sentences text) = text"
  by (simp add: split_sentences_def split_pieces_join)

section \<open>The loop of \<^verbatim>\<open>chunk_text\<close> against the accumulator\<close>

lemma accumulate_spec_over_limit:
  "limit < int (length current) \<Longrightarrow>
     accumulate_spec limit ss current = flush current @ accumulate_spec limit ss []"
  by (cases ss) (auto simp add: flush_def)

lemma accumulate_spec_skip_empty:
  "accumulate_spec limit (filter (\<lambda>s. s \<noteq> []) ss) current = accumulate_spec limit ss current"
proof (induction ss arbitrary: current)
  case Nil
  show ?case by simp
next
  case (Cons s ss)
  show ?case
  proof (cases "s = []")
    case True
    show ?thesis
    proof (cases "limit < int (length current)")
      case over: True
      have "accumulate_spec limit (s # ss) current = flush current @ accumulate_spec limit ss []"
        using True over by simp
      also have "\<dots> = accumulate_spec limit ss current"
        by (simp only: accumulate_spec_over_limit [OF over])
      finally show ?thesis using True Cons.IH [of current] by simp
    next
      case False
      with True Cons.IH [of current] show ?thesis by simp
    qed
  next
    case False
    with Cons.IH show ?thesis by simp
  qed
qed

lemma flush_strip: "current = [] \<or> has_ink current \<Longrightarrow>
  (if strip current \<noteq> [] then chunks @ [strip current] else chunks)
    = chunks @ map strip (flush current)"
  by (auto simp add: flush_def strip_Nil_iff has_ink_def)

text \<open>
  The loop as it is written, for every state it can be in: the sentences it forms are the
  non-empty pieces, each with the period and the blank appended.
\<close>

lemma chunk_loop_refines:
  "current = [] \<or> has_ink current \<Longrightarrow>
     (case chunk_loop limit ss chunks current of
        (chunks', current') \<Rightarrow>
          if strip current' \<noteq> [] then chunks' @ [strip current'] else chunks')
     = chunks @ map strip
         (accumulate_spec limit (map (\<lambda>s. s @ ''. '') (filter (\<lambda>s. s \<noteq> []) ss)) current)"
proof (induction ss arbitrary: chunks current)
  case Nil
  then show ?case by (simp add: flush_strip)
next
  case (Cons s ss)
  show ?case
  proof (cases "s = []")
    case True
    show ?thesis
    proof (cases "limit < int (length current)")
      case over: True
      have "(case chunk_loop limit (s # ss) chunks current of
               (chunks', current') \<Rightarrow>
                 if strip current' \<noteq> [] then chunks' @ [strip current'] else chunks')
            = (if current \<noteq> [] then chunks @ [strip current] else chunks)
                @ map strip
                    (accumulate_spec limit (map (\<lambda>s. s @ ''. '') (filter (\<lambda>s. s \<noteq> []) ss)) [])"
        using True over Cons.IH [of "[]"] by simp
      also have "\<dots> = chunks @ map strip (flush current)
                @ map strip
                    (accumulate_spec limit (map (\<lambda>s. s @ ''. '') (filter (\<lambda>s. s \<noteq> []) ss)) [])"
        by (simp add: flush_def)
      finally show ?thesis
        using True by (simp add: accumulate_spec_over_limit [OF over])
    next
      case False
      with True Cons.IH [OF Cons.prems] show ?thesis by simp
    qed
  next
    case False
    show ?thesis
    proof (cases "limit < int (length (current @ s @ ''. ''))")
      case over: True
      have "(case chunk_loop limit (s # ss) chunks current of
               (chunks', current') \<Rightarrow>
                 if strip current' \<noteq> [] then chunks' @ [strip current'] else chunks')
            = (if current \<noteq> [] then chunks @ [strip current] else chunks)
                @ map strip
                    (accumulate_spec limit (map (\<lambda>s. s @ ''. '') (filter (\<lambda>s. s \<noteq> []) ss))
                       (s @ ''. ''))"
        using False over Cons.IH [of "s @ ''. ''"] has_ink_sentence0 [of s] by simp
      then show ?thesis
        using False over by (simp add: flush_def)
    next
      case under: False
      then show ?thesis
        using False Cons.IH [of "current @ s @ ''. ''"] has_ink_sentence [of current s] by simp
    qed
  qed
qed

lemma chunk_text_loop:
  "chunk_text text chunk_size
     = map strip (accumulate_spec (chunk_size * 4)
         (map (\<lambda>s. s @ ''. '') (filter (\<lambda>s. s \<noteq> []) (split_sentences text))) [])"
  using chunk_loop_refines [of "[]" "chunk_size * 4" "split_sentences text" "[]"]
  by (simp add: chunk_text_def)

lemma accumulate_spec_concat:
  "concat (accumulate_spec limit ss current) = current @ concat ss"
  by (induction ss arbitrary: current) (auto simp add: flush_def)

lemma accumulate_spec_ink:
  "current = [] \<or> has_ink current \<Longrightarrow> \<forall>s \<in> set ss. has_ink s \<Longrightarrow>
     c \<in> set (accumulate_spec limit ss current) \<Longrightarrow> has_ink c"
proof (induction ss arbitrary: current)
  case Nil
  then show ?case by (auto simp add: flush_def split: if_splits)
next
  case (Cons s ss)
  from Cons.prems(2) have s: "has_ink s" and rest: "\<forall>s \<in> set ss. has_ink s" by simp_all
  from s have both: "has_ink (current @ s)" by (auto simp add: has_ink_def)
  show ?case
  proof (cases "limit < int (length (current @ s))")
    case True
    with Cons.prems(3) have "c \<in> set (flush current) \<or> c \<in> set (accumulate_spec limit ss s)"
      by simp
    then show ?thesis
    proof
      assume "c \<in> set (flush current)"
      with Cons.prems(1) show ?thesis by (auto simp add: flush_def split: if_splits)
    next
      assume "c \<in> set (accumulate_spec limit ss s)"
      with Cons.IH [of s] s rest show ?thesis by blast
    qed
  next
    case False
    with Cons.prems(3) have "c \<in> set (accumulate_spec limit ss (current @ s))"
      by simp
    with Cons.IH [of "current @ s"] both rest show ?thesis by blast
  qed
qed

lemma accumulate_spec_Nil_iff: "accumulate_spec limit ss [] = [] \<longleftrightarrow> concat ss = []"
proof
  assume "accumulate_spec limit ss [] = []"
  then have "concat (accumulate_spec limit ss []) = []" by simp
  then show "concat ss = []" by (simp add: accumulate_spec_concat)
next
  assume "concat ss = []"
  then have "filter (\<lambda>s. s \<noteq> []) ss = []" by (auto simp add: filter_empty_conv)
  then have "accumulate_spec limit (filter (\<lambda>s. s \<noteq> []) ss) [] = []"
    by (simp add: flush_def)
  then show "accumulate_spec limit ss [] = []"
    by (simp only: accumulate_spec_skip_empty)
qed

lemma chunk_text_chunk:
  assumes "c \<in> set (chunk_text text chunk_size)"
  shows "c \<noteq> [] \<and> strip c = c"
proof -
  from assms obtain u where
    u: "u \<in> set (accumulate_spec (chunk_size * 4)
                   (map (\<lambda>s. s @ ''. '') (filter (\<lambda>s. s \<noteq> []) (split_sentences text))) [])"
    and c: "c = strip u"
    by (auto simp add: chunk_text_loop)
  have "\<forall>s \<in> set (map (\<lambda>s. s @ ''. '') (filter (\<lambda>s. s \<noteq> []) (split_sentences text))). has_ink s"
    using has_ink_sentence0 by auto
  with u have "has_ink u" by (intro accumulate_spec_ink [of "[]" _ u]) simp_all
  then have "strip u \<noteq> []" by (simp add: strip_Nil_iff)
  with c show ?thesis by (simp add: strip_strip)
qed

lemma chunk_text_Nil_iff:
  "chunk_text text chunk_size = [] \<longleftrightarrow> (\<forall>s \<in> set (split_sentences text). s = [])"
  by (auto simp add: chunk_text_loop accumulate_spec_Nil_iff filter_empty_conv)

lemma sentences_of_concat: "concat (sentences_of ps) = join_str ''. '' ps"
  by (induction ps rule: sentences_of.induct) simp_all

lemma sentences_of_kept:
  "ps = [] \<or> last ps = [] \<Longrightarrow>
     filter (\<lambda>s. s \<noteq> []) (filter (\<lambda>s. s \<noteq> ''. '') (sentences_of ps))
       = map (\<lambda>s. s @ ''. '') (filter (\<lambda>s. s \<noteq> []) ps)"
  by (induction ps rule: sentences_of.induct) auto

lemma sentences_of_full:
  "ps = [] \<or> last ps = [] \<Longrightarrow> \<forall>s \<in> set (butlast ps). s \<noteq> [] \<Longrightarrow>
     filter (\<lambda>s. s \<noteq> ''. '') (sentences_of ps) = sentences_of ps"
  by (induction ps rule: sentences_of.induct) auto

lemma split_pieces_nonempty: "split_pieces piece t \<noteq> []"
  by (induction piece t rule: split_pieces.induct) auto

lemmas chunk_simps =
  chunk_text_def chunk_text_spec_def split_sentences_def strip_def is_space_def flush_def

text \<open>
  Claim C3, as the code has it by design. Let the text end where a sentence ends: it is
  empty or ends with a period and a blank, so the last piece of the split is empty and
  every sentence had its period and blank removed by the split. Then \<^verbatim>\<open>chunk_text\<close> is
  the accumulator of the specification with two changes: sentences that consist of the
  period and the blank alone are skipped, and every emitted chunk is stripped of leading
  and trailing white space. Where no piece before the last is empty, only the stripping
  is left. The accumulator itself returns chunks that concatenate to the input.
\<close>

theorem chunk_text_trimmed_accumulator:
  assumes "last (split_sentences text) = []"
  shows "chunk_text text chunk_size
           = map strip (accumulate_spec (chunk_size * 4)
               (filter (\<lambda>s. s \<noteq> ''. '') (sentences_of (split_sentences text))) [])
         \<and> ((\<forall>s \<in> set (butlast (split_sentences text)). s \<noteq> []) \<longrightarrow>
              chunk_text text chunk_size = map strip (chunk_text_spec text chunk_size))
         \<and> concat (chunk_text_spec text chunk_size) = text"
proof -
  have kept: "filter (\<lambda>s. s \<noteq> []) (filter (\<lambda>s. s \<noteq> ''. '') (sentences_of (split_sentences text)))
      = map (\<lambda>s. s @ ''. '') (filter (\<lambda>s. s \<noteq> []) (split_sentences text))"
    using assms by (intro sentences_of_kept) simp
  have "chunk_text text chunk_size
      = map strip (accumulate_spec (chunk_size * 4)
          (filter (\<lambda>s. s \<noteq> [])
             (filter (\<lambda>s. s \<noteq> ''. '') (sentences_of (split_sentences text)))) [])"
    by (simp only: kept chunk_text_loop)
  then have first: "chunk_text text chunk_size
      = map strip (accumulate_spec (chunk_size * 4)
          (filter (\<lambda>s. s \<noteq> ''. '') (sentences_of (split_sentences text))) [])"
    by (simp only: accumulate_spec_skip_empty)
  have second: "chunk_text text chunk_size = map strip (chunk_text_spec text chunk_size)"
    if "\<forall>s \<in> set (butlast (split_sentences text)). s \<noteq> []"
    using first sentences_of_full [OF _ that] assms by (simp add: chunk_text_spec_def)
  have third: "concat (chunk_text_spec text chunk_size) = text"
    by (simp add: chunk_text_spec_def accumulate_spec_concat sentences_of_concat
        split_sentences_join)
  from first second third show ?thesis by blast
qed

theorem chunk_text_trimmed_accumulator_witness:
  "last (split_sentences ''a. b. '') = []
   \<and> butlast (split_sentences ''a. b. '') = [''a'', ''b'']
   \<and> chunk_text_spec ''a. b. '' 1 = [''a. '', ''b. '']
   \<and> chunk_text ''a. b. '' 1 = map strip [''a. '', ''b. '']
   \<and> concat (chunk_text_spec ''a. b. '' 1) = ''a. b. ''"
proof -
  have pieces: "split_sentences ''a. b. '' = [''a'', ''b'', []]"
    by (simp add: split_sentences_def)
  then have ends: "last (split_sentences ''a. b. '') = []" by simp
  have full: "\<forall>s \<in> set (butlast (split_sentences ''a. b. '')). s \<noteq> []"
    by (simp add: pieces)
  have spec: "chunk_text_spec ''a. b. '' 1 = [''a. '', ''b. '']"
    by (simp add: chunk_text_spec_def pieces flush_def)
  from chunk_text_trimmed_accumulator [OF ends, of 1] full spec pieces ends
  show ?thesis by (simp add: flush_def)
qed

text \<open>
  The claim as stated fails on texts that end where a sentence ends. On \<^verbatim>\<open>"a. "\<close> the
  accumulator of the specification returns the sentence as it stands and the code returns
  it stripped; on \<^verbatim>\<open>". x. "\<close> the code skips the empty first sentence; and with a limit of
  four characters the chunks of \<^verbatim>\<open>"a. b. "\<close> concatenate to \<^verbatim>\<open>"a.b."\<close>, not to the input.
\<close>

theorem chunk_text_spec_counterexample:
  "chunk_text ''a. '' 512 = [''a.''] \<and> chunk_text_spec ''a. '' 512 = [''a. '']
   \<and> chunk_text ''a. '' 512 \<noteq> chunk_text_spec ''a. '' 512
   \<and> chunk_text ''. x. '' 512 = [''x.''] \<and> chunk_text_spec ''. x. '' 512 = [''. x. '']
   \<and> concat (chunk_text ''a. b. '' 1) = ''a.b.''
   \<and> concat (chunk_text_spec ''a. b. '' 1) = ''a. b. ''"
  by (simp add: chunk_simps)

text \<open>
  What holds of the chunks for every input: each chunk that \<^verbatim>\<open>chunk_text\<close> returns is
  non-empty and equals its own strip, and the empty input gives no chunk.
\<close>

theorem chunk_text_chunks_stripped:
  "(\<forall>c \<in> set (chunk_text text chunk_size). c \<noteq> [] \<and> strip c = c)
   \<and> chunk_text [] chunk_size = []"
proof -
  have "chunk_text [] chunk_size = []"
    by (simp add: chunk_text_Nil_iff split_sentences_def)
  then show ?thesis
    using chunk_text_chunk [of _ "text" chunk_size] by blast
qed

theorem chunk_text_chunks_stripped_witness:
  "chunk_text ''aaa. bbb. '' 1 = [''aaa.'', ''bbb.'']
   \<and> strip ''aaa.'' = ''aaa.'' \<and> strip ''bbb.'' = ''bbb.''"
proof -
  have run: "chunk_text ''aaa. bbb. '' 1 = [''aaa.'', ''bbb.'']"
    by (simp add: chunk_simps)
  from chunk_text_chunks_stripped [of "''aaa. bbb. ''" 1] run
  have "strip ''aaa.'' = ''aaa.'' \<and> strip ''bbb.'' = ''bbb.''"
    by simp
  with run show ?thesis by simp
qed

text \<open>
  Claim C9, at a failing input. An input of three blanks is white space only. It is one
  piece, from which the split removed nothing; line 55 appends the period and the blank to
  it all the same, so the remainder is no longer blank when the test
  \<^verbatim>\<open>if current_chunk.strip()\<close> looks at it, and the result is the one chunk \<^verbatim>\<open>"."\<close>
  where the claim has the empty sequence.
\<close>

theorem chunk_text_blank_input:
  "strip ''   '' = [] \<and> split_sentences ''   '' = [''   '']
   \<and> chunk_text ''   '' 512 = [''.''] \<and> chunk_text ''   '' 512 \<noteq> []"
  by (simp add: chunk_simps)

section \<open>The text of a formatted duration\<close>

lemma digit_char_cases:
  assumes "d < 10"
  shows "is_digit (digit_char d) \<and> digit_value (digit_char d) = d"
proof -
  from assms have "d \<in> {0, 1, 2, 3, 4, 5, 6, 7, 8, 9}" by auto
  then show ?thesis
    by (auto simp add: is_digit_def digit_value_def digit_char_def)
qed

lemma nat_of_digits_snoc: "nat_of_digits (ds @ [c]) = 10 * nat_of_digits ds + digit_value c"
  by (simp add: nat_of_digits_def)

lemma str_of_nat_digits:
  "str_of_nat n \<noteq> [] \<and> list_all is_digit (str_of_nat n) \<and> nat_of_digits (str_of_nat n) = n"
proof (induction n rule: str_of_nat.induct)
  case (1 n)
  show ?case
  proof (cases "n < 10")
    case True
    then show ?thesis
      using digit_char_cases [of n]
      by (simp add: str_of_nat.simps [of n] nat_of_digits_def)
  next
    case False
    with 1 have ih: "list_all is_digit (str_of_nat (n div 10))"
      "nat_of_digits (str_of_nat (n div 10)) = n div 10" by simp_all
    have "n mod 10 < 10" by simp
    from digit_char_cases [OF this] ih False show ?thesis
      by (simp add: str_of_nat.simps [of n] nat_of_digits_snoc)
  qed
qed

lemma digits_of_digits:
  "length (digits_of p n) = p \<and> list_all is_digit (digits_of p n)
   \<and> nat_of_digits (digits_of p n) = n mod 10 ^ p"
proof (induction p arbitrary: n)
  case 0
  then show ?case by (simp add: nat_of_digits_def)
next
  case (Suc p)
  have "n mod 10 < 10" by simp
  from digit_char_cases [OF this] Suc [of "n div 10"] show ?case
    by (simp add: nat_of_digits_snoc mod_mult2_eq)
qed

lemma round_half_even_near: "\<bar>of_int (round_half_even x) - x\<bar> \<le> 1 / 2"
proof -
  have "of_int \<lfloor>x\<rfloor> \<le> x" "x < of_int \<lfloor>x\<rfloor> + 1" by linarith+
  then show ?thesis
    by (auto simp add: round_half_even_def Let_def)
qed

lemma round_half_even_nonneg: "0 \<le> x \<Longrightarrow> 0 \<le> round_half_even x"
proof -
  assume "0 \<le> x"
  then have "0 \<le> \<lfloor>x\<rfloor>" by simp
  then show ?thesis by (auto simp add: round_half_even_def Let_def)
qed

lemma pow2_pos: "0 < pow2 e"
  by (simp add: pow2_def)

lemma double_round_nonneg: "0 \<le> x \<Longrightarrow> 0 \<le> double_round x"
proof -
  assume x: "0 \<le> x"
  show ?thesis
  proof (cases "x = 0")
    case True
    then show ?thesis by (simp add: double_round_def)
  next
    case False
    with x have pos: "0 < x" by simp
    have "0 \<le> round_half_even (\<bar>x\<bar> / pow2 e)" for e
      by (rule round_half_even_nonneg) (simp add: pow2_pos less_imp_le)
    with pos show ?thesis
      using pow2_pos by (simp add: double_round_def Let_def less_imp_le)
  qed
qed


lemma format_fixed_nonneg:
  assumes "0 \<le> x" and "0 < p"
  shows "\<exists>whole decimals.
           format_fixed p x = whole @ ''.'' @ decimals
           \<and> whole \<noteq> [] \<and> list_all is_digit whole
           \<and> length decimals = p \<and> list_all is_digit decimals
           \<and> \<bar>decimal_value whole decimals - x\<bar> \<le> 1 / (2 * 10 ^ p)"
proof -
  define r where "r = round_half_even (x * 10 ^ p)"
  define n where "n = nat r"
  define whole where "whole = str_of_nat (n div 10 ^ p)"
  define decimals where "decimals = digits_of p (n mod 10 ^ p)"
  from assms(1) have "0 \<le> x * 10 ^ p" by simp
  then have "0 \<le> r" unfolding r_def by (rule round_half_even_nonneg)
  then have n_r: "(of_nat n :: rat) = of_int r" by (simp add: n_def)
  have shape: "format_fixed p x = whole @ ''.'' @ decimals"
    using assms by (simp add: format_fixed_def Let_def whole_def decimals_def n_def r_def)
  have whole: "whole \<noteq> []" "list_all is_digit whole" "nat_of_digits whole = n div 10 ^ p"
    using str_of_nat_digits [of "n div 10 ^ p"] by (simp_all add: whole_def)
  have decimals: "length decimals = p" "list_all is_digit decimals"
    "nat_of_digits decimals = n mod 10 ^ p"
    using digits_of_digits [of p "n mod 10 ^ p"] by (simp_all add: decimals_def)
  have "(of_nat (n div 10 ^ p) :: rat) * 10 ^ p + of_nat (n mod 10 ^ p)
          = of_nat (n div 10 ^ p * 10 ^ p + n mod 10 ^ p)"
    by simp
  also have "\<dots> = of_nat n"
    by (simp only: div_mult_mod_eq)
  finally have "(of_nat (n div 10 ^ p) :: rat) * 10 ^ p + of_nat (n mod 10 ^ p) = of_nat n" .
  then have "decimal_value whole decimals * 10 ^ p = of_nat n"
    by (simp add: decimal_value_def whole decimals distrib_right)
  then have value_eq: "decimal_value whole decimals = of_int r / 10 ^ p"
    by (simp add: n_r eq_divide_eq)
  have "\<bar>of_int r - x * 10 ^ p\<bar> \<le> 1 / 2"
    unfolding r_def by (rule round_half_even_near)
  then have "\<bar>of_int r - x * 10 ^ p\<bar> / 10 ^ p \<le> (1 / 2) / 10 ^ p"
    by (rule divide_right_mono) simp
  moreover have "\<bar>of_int r - x * 10 ^ p\<bar> / 10 ^ p = \<bar>of_int r / 10 ^ p - x\<bar>"
  proof -
    have "of_int r / 10 ^ p - x = (of_int r - x * 10 ^ p) / 10 ^ p"
      by (simp add: diff_divide_distrib)
    then show ?thesis by (simp add: abs_divide)
  qed
  ultimately have "\<bar>decimal_value whole decimals - x\<bar> \<le> 1 / (2 * 10 ^ p)"
    by (simp add: value_eq)
  with shape whole(1,2) decimals(1,2) show ?thesis by blast
qed

lemma fmod60_range: "0 \<le> s \<Longrightarrow> 0 \<le> fmod60 s \<and> fmod60 s < 60"
proof -
  assume s: "0 \<le> s"
  have "of_int \<lfloor>s / 60\<rfloor> \<le> s / 60" "s / 60 < of_int \<lfloor>s / 60\<rfloor> + 1" by linarith+
  then have "60 * of_int \<lfloor>s / 60\<rfloor> \<le> s" "s < 60 * of_int \<lfloor>s / 60\<rfloor> + 60" by simp_all
  with s show ?thesis
    by (cases "s = 0") (simp_all add: fmod60_def)
qed

lemma float_mod60_nonneg: "0 \<le> s \<Longrightarrow> float_mod60 s = s - 60 * of_int \<lfloor>s / 60\<rfloor>"
  using fmod60_range [of s]
  by (cases "s = 0") (simp_all add: float_mod60_def Let_def fmod60_def)

lemma float_floordiv60_nonneg: "0 \<le> s \<Longrightarrow> 0 \<le> float_floordiv60 s"
proof -
  assume s: "0 \<le> s"
  define m where "m = fmod60 s"
  define d where "d = double_round (double_round (s - m) / 60)"
  from fmod60_range [OF s] have m: "0 \<le> m" "m < 60" by (simp_all add: m_def)
  have "m \<le> s"
    using s fmod60_range [OF s]
    by (cases "s = 0") (simp_all add: m_def fmod60_def)
  then have "0 \<le> double_round (s - m)" by (simp add: double_round_nonneg)
  then have d: "0 \<le> d" by (simp add: d_def double_round_nonneg)
  then have f: "0 \<le> \<lfloor>d\<rfloor>" by simp
  then have "0 \<le> double_round (of_int \<lfloor>d\<rfloor> + 1)" by (simp add: double_round_nonneg)
  with f m show ?thesis
    by (simp add: float_floordiv60_def Let_def m_def [symmetric] d_def [symmetric])
qed


lemma format_time_ms: "s < 1 \<Longrightarrow> format_time s = format_fixed 1 (double_round (s * 1000)) @ ''ms''"
  by (simp add: format_time_def)

lemma format_time_s: "1 \<le> s \<Longrightarrow> s < 60 \<Longrightarrow> format_time s = format_fixed 2 s @ ''s''"
  by (simp add: format_time_def)

lemma format_time_m:
  "60 \<le> s \<Longrightarrow>
     format_time s = str_of_int \<lfloor>float_floordiv60 s\<rfloor> @ ''m '' @ format_fixed 1 (float_mod60 s) @ ''s''"
  by (simp add: format_time_def Let_def)

lemma format_fixed_eval:
  assumes "0 \<le> x" and "0 < p" and "round_half_even (x * 10 ^ p) = int n"
    and "n div 10 ^ p = w" and "n mod 10 ^ p = d"
    and "str_of_nat w = ws" and "digits_of p d = ds"
  shows "format_fixed p x = ws @ ''.'' @ ds"
  using assms by (simp add: format_fixed_def Let_def)

lemma literal_half: "float_literal (5 / 10) = 1 / 2"
  unfolding float_literal_def by code_simp

lemma literal_1234: "float_literal (1234 / 1000) = 694680242521899 / 562949953421312"
  unfolding float_literal_def by code_simp

lemma literal_754: "float_literal (754 / 10) = 2652901655497933 / 35184372088832"
  unfolding float_literal_def by code_simp

lemma example_ms: "format_time (1 / 2) = ''500.0ms''"
proof -
  have product: "double_round (1 / 2 * 1000) = 500" by code_simp
  have r: "round_half_even (500 * 10 ^ 1) = int 5000" by code_simp
  have w: "str_of_nat 500 = ''500''" by code_simp
  have d: "digits_of 1 0 = ''0''" by code_simp
  have "format_fixed 1 500 = ''500'' @ ''.'' @ ''0''"
    by (rule format_fixed_eval [OF _ _ r _ _ w d]) simp_all
  with product format_time_ms [of "1 / 2"] show ?thesis by simp
qed

lemma example_s: "format_time (694680242521899 / 562949953421312) = ''1.23s''"
proof -
  have r: "round_half_even (694680242521899 / 562949953421312 * 10 ^ 2) = int 123" by code_simp
  have w: "str_of_nat 1 = ''1''" by code_simp
  have d: "digits_of 2 23 = ''23''" by code_simp
  have "format_fixed 2 (694680242521899 / 562949953421312) = ''1'' @ ''.'' @ ''23''"
    by (rule format_fixed_eval [OF _ _ r _ _ w d]) simp_all
  moreover have "(1::rat) \<le> 694680242521899 / 562949953421312"
    "(694680242521899 / 562949953421312 :: rat) < 60" by simp_all
  ultimately show ?thesis
    using format_time_s [of "694680242521899 / 562949953421312"] by simp
qed

lemma example_m: "format_time (2652901655497933 / 35184372088832) = ''1m 15.4s''"
proof -
  have md: "float_mod60 (2652901655497933 / 35184372088832) = 541839330168013 / 35184372088832"
    by code_simp
  have fd: "\<lfloor>float_floordiv60 (2652901655497933 / 35184372088832)\<rfloor> = 1"
    by code_simp
  have r: "round_half_even (541839330168013 / 35184372088832 * 10 ^ 1) = int 154" by code_simp
  have w: "str_of_nat 15 = ''15''" by code_simp
  have d: "digits_of 1 4 = ''4''" by code_simp
  have ff: "format_fixed 1 (541839330168013 / 35184372088832) = ''15'' @ ''.'' @ ''4''"
    by (rule format_fixed_eval [OF _ _ r _ _ w d]) simp_all
  have mins: "str_of_int 1 = ''1''" by code_simp
  have "(60::rat) \<le> 2652901655497933 / 35184372088832" by simp
  from format_time_m [OF this] show ?thesis
    by (simp only: md fd ff mins) simp
qed

lemma bit_length_bounds: "0 < n \<Longrightarrow> 2 ^ (bit_length n - 1) \<le> n \<and> n < 2 ^ bit_length n"
proof (induction n rule: bit_length.induct)
  case (1 n)
  show ?case
  proof (cases "n div 2 = 0")
    case True
    with 1(2) have "n = Suc 0" by (auto simp add: div_eq_0_iff)
    then show ?thesis
      by (simp add: bit_length.simps [of "Suc 0"] bit_length.simps [of 0])
  next
    case False
    then have pos: "0 < n div 2" by simp
    define c where "c = bit_length (n div 2)"
    from 1(1) [OF _ pos] 1(2)
    have ih: "2 ^ (c - 1) \<le> n div 2" "n div 2 < 2 ^ c"
      by (simp_all add: c_def)
    have bl: "bit_length n = Suc c"
      using 1(2) by (simp add: bit_length.simps [of n] c_def)
    have "0 < c"
      using pos by (simp add: c_def bit_length.simps [of "n div 2"])
    then have double: "(2::nat) ^ c = 2 * 2 ^ (c - 1)"
      by (cases c) simp_all
    have "2 * (n div 2) \<le> n" "n \<le> 2 * (n div 2) + 1" by presburger+
    with ih double have "2 ^ c \<le> n" "n < 2 * 2 ^ c" by linarith+
    then show ?thesis by (simp add: bl)
  qed
qed

lemma round_half_even_of_int: "round_half_even (of_int k) = k"
  by (simp add: round_half_even_def)

lemma pow2_minus_nat: "pow2 (- int k) = 1 / 2 ^ k"
  by (cases k) (simp_all add: pow2_def nat_add_distrib)

lemma pow2_nat: "pow2 (int k) = 2 ^ k"
  by (simp add: pow2_def)

lemma double_round_nat:
  assumes "0 < n" and "n < 2 ^ 53"
  shows "double_round (of_nat n) = of_nat n"
proof -
  define b where "b = bit_length n"
  from bit_length_bounds [OF assms(1)]
  have lo: "2 ^ (b - 1) \<le> n" and hi: "n < 2 ^ b" by (simp_all add: b_def)
  have b_pos: "0 < b"
    using assms(1) by (simp add: b_def bit_length.simps [of n])
  have "(2::nat) ^ (b - 1) < 2 ^ 53" using lo assms(2) by simp
  then have "b - 1 < 53" by (simp only: power_strict_increasing_iff)
  with b_pos have b_le: "b \<le> 53" by simp
  have q: "quotient_of (of_nat n) = (int n, 1)"
    using quotient_of_int [of "int n"] by simp
  have one: "bit_length (Suc 0) = 1"
    by (simp add: bit_length.simps [of "Suc 0"] bit_length.simps [of 0])
  have e0: "int b - 1 = int (b - 1)" using b_pos by simp
  have "pow2 (int b - 1) \<le> of_nat n"
    unfolding e0 pow2_nat using lo by (metis of_nat_le_iff of_nat_numeral of_nat_power)
  then have be: "binary_exponent (of_nat n) = int b - 1"
    by (simp add: binary_exponent_def q b_def [symmetric] one Let_def)
  have e: "max (int b - 1 - 52) (- 1074) = - int (53 - b)"
    using b_le by simp
  have scaled: "(of_nat n :: rat) / pow2 (- int (53 - b)) = of_int (int (n * 2 ^ (53 - b)))"
    by (simp add: pow2_minus_nat)
  have pos: "(0::rat) < of_nat n" using assms(1) by simp
  then have "double_round (of_nat n)
          = of_int (round_half_even (of_nat n / pow2 (max (int b - 1 - 52) (- 1074))))
              * pow2 (max (int b - 1 - 52) (- 1074))"
    by (simp add: double_round_def be Let_def)
  also have "\<dots> = of_int (int (n * 2 ^ (53 - b))) * pow2 (- int (53 - b))"
    by (simp only: e scaled round_half_even_of_int)
  also have "\<dots> = of_nat n"
    by (simp add: pow2_minus_nat)
  finally show ?thesis .
qed


lemma float_floordiv60_exact:
  assumes "60 \<le> s" and "s < 2 ^ 53"
  shows "float_floordiv60 s = of_int \<lfloor>s / 60\<rfloor>"
proof -
  define q where "q = nat \<lfloor>s / 60\<rfloor>"
  from assms(1) have "1 \<le> s / 60" by simp
  then have fl: "1 \<le> \<lfloor>s / 60\<rfloor>" by (simp add: le_floor_iff)
  then have q_int: "\<lfloor>s / 60\<rfloor> = int q" and q_pos: "0 < q" by (simp_all add: q_def)
  have "of_int \<lfloor>s / 60\<rfloor> \<le> s / 60" by (rule of_int_floor_le)
  then have le: "60 * (of_nat q :: rat) \<le> s" by (simp add: q_int)
  with assms(2) have "(of_nat (60 * q) :: rat) < of_nat (2 ^ 53)" by simp
  then have small60: "60 * q < 2 ^ 53" by (simp only: of_nat_less_iff)
  then have small: "q < 2 ^ 53" by simp
  from assms(1) have s_pos: "0 < s" by simp
  then have m: "fmod60 s = s - 60 * of_nat q"
    by (simp add: fmod60_def q_int)
  from le have m_nonneg: "\<not> fmod60 s < 0" by (simp add: m)
  have "s - fmod60 s = of_nat (60 * q)" by (simp add: m)
  moreover have "double_round (of_nat (60 * q)) = of_nat (60 * q)"
    using q_pos small60 by (intro double_round_nat) simp_all
  ultimately have "double_round (s - fmod60 s) / 60 = of_nat q" by simp
  moreover have "double_round (of_nat q) = of_nat q"
    using q_pos small by (rule double_round_nat)
  ultimately have d: "double_round (double_round (s - fmod60 s) / 60) = of_nat q" by simp
  have zero: "double_round 0 = 0" by (simp add: double_round_def)
  show ?thesis
    using m_nonneg by (simp add: float_floordiv60_def Let_def d zero q_int)
qed


lemma pow2_power_int: "pow2 e = power_int 2 e"
  by (simp add: pow2_def power_int_def inverse_eq_divide power_one_over)

lemma pow2_minus: "pow2 (i - int k) = pow2 i / 2 ^ k"
  by (simp add: pow2_power_int power_int_diff)

lemma binary_exponent_le:
  assumes "0 < x"
  shows "pow2 (binary_exponent x) \<le> x"
proof -
  obtain p q where pq: "quotient_of x = (p, q)" by (cases "quotient_of x")
  then have q_pos: "0 < q" by (rule quotient_of_denom_pos)
  from pq have x: "x = of_int p / of_int q" by (rule quotient_of_div)
  with assms q_pos have p_pos: "0 < p" by (simp add: zero_less_divide_iff)
  define a where "a = bit_length (nat p)"
  define b where "b = bit_length (nat q)"
  show ?thesis
  proof (cases "pow2 (int a - int b) \<le> x")
    case True
    then show ?thesis
      by (simp add: binary_exponent_def pq a_def b_def Let_def)
  next
    case False
    then have be: "binary_exponent x = int a - int b - 1"
      by (simp add: binary_exponent_def pq a_def b_def Let_def)
    from p_pos have "0 < nat p" by simp
    from bit_length_bounds [OF this] have lo: "2 ^ (a - 1) \<le> nat p" by (simp add: a_def)
    from q_pos have "0 < nat q" by simp
    from bit_length_bounds [OF this] have hi: "nat q < 2 ^ b" by (simp add: b_def)
    have a_pos: "0 < a"
      using p_pos by (simp add: a_def bit_length.simps [of "nat p"])
    from lo have "(of_nat (2 ^ (a - 1)) :: rat) \<le> of_nat (nat p)" by (simp only: of_nat_le_iff)
    with p_pos have lo': "(2::rat) ^ (a - 1) \<le> of_int p" by simp
    from hi have "(of_nat (nat q) :: rat) \<le> of_nat (2 ^ b)" by (simp only: of_nat_le_iff)
    with q_pos have hi': "(of_int q :: rat) \<le> 2 ^ b" by simp
    have "int a - int b - 1 = int (a - 1) - int b"
      using a_pos by linarith
    then have "pow2 (int a - int b - 1) = pow2 (int (a - 1) - int b)"
      by (simp only:)
    also have "\<dots> = 2 ^ (a - 1) / 2 ^ b"
      by (simp add: pow2_minus pow2_nat)
    also have "\<dots> \<le> of_int p / of_int q"
      using lo' hi' q_pos p_pos by (intro frac_le) simp_all
    also have "\<dots> = x"
      by (simp only: x)
    finally show ?thesis by (simp only: be)
  qed
qed

lemma double_round_error:
  assumes "0 \<le> x"
  shows "\<bar>double_round x - x\<bar> \<le> max (x / 2 ^ 53) (1 / 2 ^ 1075)"
proof (cases "x = 0")
  case True
  then show ?thesis by (simp add: double_round_def)
next
  case False
  with assms have pos: "0 < x" by simp
  define e where "e = max (binary_exponent x - 52) (- 1074)"
  define r where "r = round_half_even (x / pow2 e)"
  have dr: "double_round x = of_int r * pow2 e"
    using pos by (simp add: double_round_def Let_def e_def r_def)
  have "\<bar>of_int r - x / pow2 e\<bar> \<le> 1 / 2"
    unfolding r_def by (rule round_half_even_near)
  then have "\<bar>of_int r - x / pow2 e\<bar> * pow2 e \<le> 1 / 2 * pow2 e"
    using pow2_pos [of e] by (intro mult_right_mono) simp_all
  moreover have "\<bar>of_int r - x / pow2 e\<bar> * pow2 e = \<bar>of_int r * pow2 e - x\<bar>"
  proof -
    have "(of_int r - x / pow2 e) * pow2 e = of_int r * pow2 e - x"
      using pow2_pos [of e] by (simp add: left_diff_distrib)
    then have "\<bar>of_int r * pow2 e - x\<bar> = \<bar>of_int r - x / pow2 e\<bar> * \<bar>pow2 e\<bar>"
      by (simp only: abs_mult [symmetric])
    then show ?thesis using pow2_pos [of e] by simp
  qed
  ultimately have half_ulp: "\<bar>double_round x - x\<bar> \<le> pow2 e / 2"
    by (simp add: dr)
  have "pow2 e / 2 \<le> max (x / 2 ^ 53) (1 / 2 ^ 1075)"
  proof (cases "- 1074 \<le> binary_exponent x - 52")
    case True
    then have "pow2 e = pow2 (binary_exponent x) / 2 ^ 52"
      using pow2_minus [of "binary_exponent x" 52] by (simp add: e_def)
    also have "\<dots> \<le> x / 2 ^ 52"
      using binary_exponent_le [OF pos] by (simp add: divide_right_mono)
    finally have "pow2 e / 2 \<le> x / 2 ^ 53" by simp
    then show ?thesis by simp
  next
    case False
    then have "e = - int 1074" by (simp add: e_def)
    then have "pow2 e = 1 / 2 ^ 1074" by (simp only: pow2_minus_nat)
    then show ?thesis by simp
  qed
  with half_ulp show ?thesis by linarith
qed

lemma product_error:
  assumes "0 \<le> s" and "s < 1"
  shows "\<bar>double_round (s * 1000) - s * 1000\<bar> \<le> 1 / 2 ^ 43"
proof -
  from assms have "0 \<le> s * 1000" "s * 1000 < 1024" by simp_all
  then have "s * 1000 / 2 ^ 53 \<le> 1024 / 2 ^ 53"
    by (intro divide_right_mono) simp_all
  also have "(1024 :: rat) / 2 ^ 53 = 1 / 2 ^ 43" by simp
  finally have a: "s * 1000 / 2 ^ 53 \<le> 1 / 2 ^ 43" .
  have b: "(1 :: rat) / 2 ^ 1075 \<le> 1 / 2 ^ 43"
    by (intro divide_left_mono power_increasing) simp_all
  from a b have "max (s * 1000 / 2 ^ 53) (1 / 2 ^ 1075) \<le> 1 / 2 ^ 43"
    by (rule max.boundedI)
  with double_round_error [OF \<open>0 \<le> s * 1000\<close>] show ?thesis
    by (rule order_trans)
qed

text \<open>
  Claim C5. For a duration \<open>s \<ge> 0\<close>: below one second the text is the float product
  \<^verbatim>\<open>s*1000\<close> rounded to one decimal, digits, a point and one digit, followed by
  \<^verbatim>\<open>ms\<close>, and the printed number is the milliseconds up to half a unit of its last
  digit and the rounding of the product; from one second and below sixty it is \<open>s\<close>
  rounded to two decimals followed by \<^verbatim>\<open>s\<close>; from sixty seconds on it is the whole number
  \<^verbatim>\<open>int(s // 60)\<close>, then \<^verbatim>\<open>m\<close> and a blank, then the remainder of \<open>s\<close> modulo 60
  rounded to one decimal, then \<^verbatim>\<open>s\<close>, and below \<open>2\<^sup>5\<^sup>3\<close> seconds that whole number is
  the number of whole minutes in \<open>s\<close>. The three examples of the specification come out
  as stated, the literals being the doubles nearest to 0.5, 1.234 and 75.4.
\<close>

theorem format_time_renders:
  "(0 \<le> s \<and> s < 1 \<longrightarrow>
      (\<exists>whole decimals.
         format_time s = whole @ ''.'' @ decimals @ ''ms''
         \<and> whole \<noteq> [] \<and> list_all is_digit whole
         \<and> length decimals = 1 \<and> list_all is_digit decimals
         \<and> \<bar>decimal_value whole decimals - double_round (s * 1000)\<bar> \<le> 1 / 20
         \<and> \<bar>decimal_value whole decimals - s * 1000\<bar> \<le> 1 / 20 + 1 / 2 ^ 43))
   \<and> (1 \<le> s \<and> s < 60 \<longrightarrow>
      (\<exists>whole decimals.
         format_time s = whole @ ''.'' @ decimals @ ''s''
         \<and> whole \<noteq> [] \<and> list_all is_digit whole
         \<and> length decimals = 2 \<and> list_all is_digit decimals
         \<and> \<bar>decimal_value whole decimals - s\<bar> \<le> 1 / 200))
   \<and> (60 \<le> s \<longrightarrow>
      (\<exists>minutes whole decimals.
         format_time s = minutes @ ''m '' @ whole @ ''.'' @ decimals @ ''s''
         \<and> minutes \<noteq> [] \<and> list_all is_digit minutes
         \<and> int (nat_of_digits minutes) = \<lfloor>float_floordiv60 s\<rfloor>
         \<and> whole \<noteq> [] \<and> list_all is_digit whole
         \<and> length decimals = 1 \<and> list_all is_digit decimals
         \<and> \<bar>decimal_value whole decimals - (s - 60 * of_int \<lfloor>s / 60\<rfloor>)\<bar> \<le> 1 / 20))
   \<and> (60 \<le> s \<and> s < 2 ^ 53 \<longrightarrow> \<lfloor>float_floordiv60 s\<rfloor> = \<lfloor>s / 60\<rfloor>)
   \<and> format_time (float_literal (5 / 10)) = ''500.0ms''
   \<and> format_time (float_literal (1234 / 1000)) = ''1.23s''
   \<and> format_time (float_literal (754 / 10)) = ''1m 15.4s''"
proof -
  have ms: "\<exists>whole decimals.
         format_time s = whole @ ''.'' @ decimals @ ''ms''
         \<and> whole \<noteq> [] \<and> list_all is_digit whole
         \<and> length decimals = 1 \<and> list_all is_digit decimals
         \<and> \<bar>decimal_value whole decimals - double_round (s * 1000)\<bar> \<le> 1 / 20
         \<and> \<bar>decimal_value whole decimals - s * 1000\<bar> \<le> 1 / 20 + 1 / 2 ^ 43"
    if "0 \<le> s" "s < 1"
  proof -
    from that(1) have "0 \<le> double_round (s * 1000)" by (simp add: double_round_nonneg)
    from format_fixed_nonneg [OF this, of 1] obtain whole decimals where
      ff: "format_fixed 1 (double_round (s * 1000)) = whole @ ''.'' @ decimals"
        "whole \<noteq> []" "list_all is_digit whole" "length decimals = 1" "list_all is_digit decimals"
        "\<bar>decimal_value whole decimals - double_round (s * 1000)\<bar> \<le> 1 / 20"
      by auto
    have "format_time s = (whole @ ''.'' @ decimals) @ ''ms''"
      using format_time_ms [OF that(2)] by (simp only: ff(1))
    then have shape: "format_time s = whole @ ''.'' @ decimals @ ''ms''" by simp
    from ff(6) product_error [OF that]
    have "\<bar>decimal_value whole decimals - s * 1000\<bar> \<le> 1 / 20 + 1 / 2 ^ 43"
      by linarith
    with shape ff(2-6) show ?thesis by blast
  qed
  have sec: "\<exists>whole decimals.
         format_time s = whole @ ''.'' @ decimals @ ''s''
         \<and> whole \<noteq> [] \<and> list_all is_digit whole
         \<and> length decimals = 2 \<and> list_all is_digit decimals
         \<and> \<bar>decimal_value whole decimals - s\<bar> \<le> 1 / 200"
    if "1 \<le> s" "s < 60"
  proof -
    from that(1) have "0 \<le> s" by simp
    from format_fixed_nonneg [OF this, of 2] format_time_s [OF that]
    show ?thesis by simp
  qed
  have mins: "\<exists>minutes whole decimals.
         format_time s = minutes @ ''m '' @ whole @ ''.'' @ decimals @ ''s''
         \<and> minutes \<noteq> [] \<and> list_all is_digit minutes
         \<and> int (nat_of_digits minutes) = \<lfloor>float_floordiv60 s\<rfloor>
         \<and> whole \<noteq> [] \<and> list_all is_digit whole
         \<and> length decimals = 1 \<and> list_all is_digit decimals
         \<and> \<bar>decimal_value whole decimals - (s - 60 * of_int \<lfloor>s / 60\<rfloor>)\<bar> \<le> 1 / 20"
    if "60 \<le> s"
  proof -
    from that have s: "0 \<le> s" by simp
    define k where "k = \<lfloor>float_floordiv60 s\<rfloor>"
    from float_floordiv60_nonneg [OF s] have k: "0 \<le> k" by (simp add: k_def)
    then have str: "str_of_int k = str_of_nat (nat k)" by (simp add: str_of_int_def)
    have md1: "float_mod60 s = s - 60 * of_int \<lfloor>s / 60\<rfloor>"
      by (rule float_mod60_nonneg [OF s])
    have md2: "0 \<le> float_mod60 s"
      using fmod60_range [OF s] by (simp add: float_mod60_def Let_def)
    from format_fixed_nonneg [OF md2, of 1] obtain whole decimals where
      ff: "format_fixed 1 (float_mod60 s) = whole @ ''.'' @ decimals"
        "whole \<noteq> []" "list_all is_digit whole" "length decimals = 1" "list_all is_digit decimals"
        "\<bar>decimal_value whole decimals - float_mod60 s\<bar> \<le> 1 / 20"
      by auto
    have "format_time s = str_of_int k @ ''m '' @ format_fixed 1 (float_mod60 s) @ ''s''"
      using format_time_m [OF that] by (simp only: k_def)
    then have "format_time s = str_of_nat (nat k) @ ''m '' @ (whole @ ''.'' @ decimals) @ ''s''"
      by (simp only: str ff(1))
    then have "format_time s = str_of_nat (nat k) @ ''m '' @ whole @ ''.'' @ decimals @ ''s''"
      by simp
    moreover have "int (nat_of_digits (str_of_nat (nat k))) = k"
      using str_of_nat_digits [of "nat k"] k by simp
    ultimately show ?thesis
      using str_of_nat_digits [of "nat k"] ff(2-6) md1 k_def by metis
  qed
  have whole_minutes: "\<lfloor>float_floordiv60 s\<rfloor> = \<lfloor>s / 60\<rfloor>" if "60 \<le> s" "s < 2 ^ 53"
    using float_floordiv60_exact [OF that] by simp
  show ?thesis
    using ms sec mins whole_minutes
    by (simp only: literal_half literal_1234 literal_754 example_ms example_s example_m) blast
qed

theorem format_time_renders_witness:
  "(0::rat) \<le> 1 / 2 \<and> (1 / 2 :: rat) < 1
   \<and> (\<exists>whole decimals.
         format_time (1 / 2) = whole @ ''.'' @ decimals @ ''ms''
         \<and> whole \<noteq> [] \<and> list_all is_digit whole
         \<and> length decimals = 1 \<and> list_all is_digit decimals
         \<and> \<bar>decimal_value whole decimals - double_round (1 / 2 * 1000)\<bar> \<le> 1 / 20
         \<and> \<bar>decimal_value whole decimals - 1 / 2 * 1000\<bar> \<le> 1 / 20 + 1 / 2 ^ 43)
   \<and> (1::rat) \<le> 5 / 4 \<and> (5 / 4 :: rat) < 60
   \<and> (\<exists>whole decimals.
         format_time (5 / 4) = whole @ ''.'' @ decimals @ ''s''
         \<and> whole \<noteq> [] \<and> list_all is_digit whole
         \<and> length decimals = 2 \<and> list_all is_digit decimals
         \<and> \<bar>decimal_value whole decimals - 5 / 4\<bar> \<le> 1 / 200)
   \<and> (60::rat) \<le> 3725 \<and> (3725::rat) < 2 ^ 53
   \<and> (\<exists>minutes whole decimals.
         format_time 3725 = minutes @ ''m '' @ whole @ ''.'' @ decimals @ ''s''
         \<and> minutes \<noteq> [] \<and> list_all is_digit minutes
         \<and> int (nat_of_digits minutes) = \<lfloor>float_floordiv60 3725\<rfloor>
         \<and> whole \<noteq> [] \<and> list_all is_digit whole
         \<and> length decimals = 1 \<and> list_all is_digit decimals
         \<and> \<bar>decimal_value whole decimals - (3725 - 60 * of_int \<lfloor>(3725::rat) / 60\<rfloor>)\<bar> \<le> 1 / 20)
   \<and> \<lfloor>float_floordiv60 3725\<rfloor> = \<lfloor>(3725::rat) / 60\<rfloor>"
proof -
  have h1: "(0::rat) \<le> 1 / 2 \<and> (1 / 2 :: rat) < 1" by simp
  have h2: "(1::rat) \<le> 5 / 4 \<and> (5 / 4 :: rat) < 60" by simp
  have h3: "(60::rat) \<le> 3725" by simp
  have h4: "(60::rat) \<le> 3725 \<and> (3725::rat) < 2 ^ 53" by simp
  note all = format_time_renders [of 3725]
  note c1 = mp [OF conjunct1 [OF format_time_renders [of "1 / 2"]] h1]
  note c2 = mp [OF conjunct1 [OF conjunct2 [OF format_time_renders [of "5 / 4"]]] h2]
  note c3 = mp [OF conjunct1 [OF conjunct2 [OF conjunct2 [OF all]]] h3]
  note c4 = mp [OF conjunct1 [OF conjunct2 [OF conjunct2 [OF conjunct2 [OF all]]]] h4]
  from h1 h2 h4 c1 c2 c3 c4 show ?thesis
    by (intro conjI) (erule conjunct1 conjunct2 | assumption)+
qed

end
